theory Spec2Isabelle
  imports Main "HOL-Library.Sublist"
begin

section \<open>Data model\<close>

text \<open>
  The module \<^verbatim>\<open>helpers/convertToSchemaJSON.js\<close> validates an array of field descriptors
  with a zod schema, folds their dotted names into a nested plain object and renders that
  object as an indented block of text.

  Raw input is any JavaScript value that can arrive from a JSON response. A number is
  only ever inspected for its type tag, so its payload is an integer here. A string is
  the list of its code units.
\<close>

datatype json =
    JUndefined
  | JNull
  | JBoolean bool
  | JNumber int
  | JString string
  | JArray "json list"
  | JObject "(string \<times> json) list"

text \<open>The output of \<^verbatim>\<open>fieldSchema\<close>: every key of the zod object, defaults filled in.\<close>

record field =
  name :: string
  type :: string
  unit :: string
  hidden :: bool
  description :: string

text \<open>
  What the functions can end in besides a value: \<open>ZodError\<close> is thrown by
  \<^verbatim>\<open>fieldsSchema.parse\<close>, \<open>RangeError\<close> by \<^verbatim>\<open>String.prototype.repeat\<close> on a negative count,
  \<open>TypeError\<close> by an accessor of a built-in object that the path walk reads or assigns.
\<close>

datatype error = ZodError | RangeError | TypeError

section \<open>Validation: \<^verbatim>\<open>fieldSchema\<close> and \<^verbatim>\<open>fieldsSchema\<close>\<close>

text \<open>\<^verbatim>\<open>data[key]\<close> on a parsed JSON object: an absent key reads as \<^verbatim>\<open>undefined\<close>.\<close>

definition getProp :: "(string \<times> json) list \<Rightarrow> string \<Rightarrow> json" where
  "getProp ps k = (case map_of ps k of None \<Rightarrow> JUndefined | Some v \<Rightarrow> v)"

text \<open>\<^verbatim>\<open>z.string()\<close>: any string, the empty one included.\<close>

fun zString :: "json \<Rightarrow> error + string" where
  "zString (JString s) = Inr s"
| "zString _ = Inl ZodError"

text \<open>\<^verbatim>\<open>z.string().optional().default(d)\<close>: \<^verbatim>\<open>undefined\<close> is replaced by \<open>d\<close>.\<close>

fun zStringDefault :: "string \<Rightarrow> json \<Rightarrow> error + string" where
  "zStringDefault d JUndefined = Inr d"
| "zStringDefault d v = zString v"

text \<open>\<^verbatim>\<open>z.boolean().optional().default(d)\<close>.\<close>

fun zBooleanDefault :: "bool \<Rightarrow> json \<Rightarrow> error + bool" where
  "zBooleanDefault d JUndefined = Inr d"
| "zBooleanDefault d (JBoolean b) = Inr b"
| "zBooleanDefault d _ = Inl ZodError"

text \<open>
  \<^verbatim>\<open>fieldSchema.parse\<close>: the input must be an object; the five keys of the shape are read
  and checked, any other key is dropped.
\<close>

fun fieldSchema_parse :: "json \<Rightarrow> error + field" where
  "fieldSchema_parse (JObject ps) =
     (case zString (getProp ps ''name'') of
        Inl e \<Rightarrow> Inl e
      | Inr n \<Rightarrow>
     (case zStringDefault ''any'' (getProp ps ''type'') of
        Inl e \<Rightarrow> Inl e
      | Inr t \<Rightarrow>
     (case zStringDefault '''' (getProp ps ''unit'') of
        Inl e \<Rightarrow> Inl e
      | Inr u \<Rightarrow>
     (case zBooleanDefault False (getProp ps ''hidden'') of
        Inl e \<Rightarrow> Inl e
      | Inr h \<Rightarrow>
     (case zStringDefault '''' (getProp ps ''description'') of
        Inl e \<Rightarrow> Inl e
      | Inr d \<Rightarrow>
          Inr \<lparr>name = n, type = t, unit = u, hidden = h, description = d\<rparr>)))))"
| "fieldSchema_parse _ = Inl ZodError"

text \<open>\<^verbatim>\<open>z.array(fieldSchema)\<close>: one failing element fails the array.\<close>

fun parseElements :: "json list \<Rightarrow> error + field list" where
  "parseElements [] = Inr []"
| "parseElements (x # xs) =
     (case fieldSchema_parse x of
        Inl e \<Rightarrow> Inl e
      | Inr f \<Rightarrow> (case parseElements xs of Inl e \<Rightarrow> Inl e | Inr fs \<Rightarrow> Inr (f # fs)))"

fun fieldsSchema_parse :: "json \<Rightarrow> error + field list" where
  "fieldsSchema_parse (JArray xs) = parseElements xs"
| "fieldsSchema_parse _ = Inl ZodError"

section \<open>The schema tree\<close>

text \<open>
  A value stored in the tree is a type string or a nested plain object. An object is the
  list of its own properties in the order \<^verbatim>\<open>Object.entries\<close> enumerates them: keys that are
  array indices first, in ascending numeric order, then every other key in the order of
  creation.
\<close>

datatype node = Str string | Obj "(string \<times> node) list"

type_synonym object = "(string \<times> node) list"

text \<open>
  An array index is the canonical decimal form of an integer from 0 to \<open>2\<^sup>3\<^sup>2 - 2\<close>:
  digits only, no leading zero.
\<close>

definition isDigit :: "char \<Rightarrow> bool" where
  "isDigit c = (c \<in> set ''0123456789'')"

definition numericValue :: "string \<Rightarrow> int" where
  "numericValue k = foldl (\<lambda>n c. 10 * n + (of_char c - 48)) 0 k"

definition isArrayIndex :: "string \<Rightarrow> bool" where
  "isArrayIndex k =
     (k \<noteq> [] \<and> list_all isDigit k \<and> (if hd k = CHR ''0'' then k = ''0'' else True)
      \<and> numericValue k < 4294967295)"

text \<open>Whether a property created under key \<open>k\<close> is enumerated before an existing key \<open>k'\<close>.\<close>

definition comesBefore :: "string \<Rightarrow> string \<Rightarrow> bool" where
  "comesBefore k k' =
     (isArrayIndex k \<and> (if isArrayIndex k' then numericValue k < numericValue k' else True))"

fun addProp :: "string \<Rightarrow> node \<Rightarrow> object \<Rightarrow> object" where
  "addProp k v [] = [(k, v)]"
| "addProp k v ((k', v') # ps) =
     (if comesBefore k k' then (k, v) # (k', v') # ps else (k', v') # addProp k v ps)"

text \<open>
  \<^verbatim>\<open>current[key] = v\<close> on a plain object, for a key that no setter intercepts: an own
  property keeps its place and takes the new value, a new one is created.
\<close>

fun replaceProp :: "string \<Rightarrow> node \<Rightarrow> object \<Rightarrow> object" where
  "replaceProp k v [] = []"
| "replaceProp k v ((k', v') # ps) =
     (if k' = k then (k, v) # ps else (k', v') # replaceProp k v ps)"

definition setProp :: "string \<Rightarrow> node \<Rightarrow> object \<Rightarrow> object" where
  "setProp k v ps = (if map_of ps k = None then addProp k v ps else replaceProp k v ps)"

section \<open>The JavaScript runtime seen by the walk\<close>

text \<open>
  \<^verbatim>\<open>current[key]\<close> is a property read of the language: the object's own properties first,
  then its prototype chain. Where the key is inherited, \<^verbatim>\<open>current\<close> moves from the tree onto
  objects of the runtime, and the following segments are read from and assigned to those.
  The objects that string keys reach from a plain object or a primitive string are
  modelled as ECMAScript 2024 (Annex B included) defines them: \<^verbatim>\<open>Object.prototype\<close>,
  \<^verbatim>\<open>Function.prototype\<close>, \<^verbatim>\<open>String.prototype\<close>, \<^verbatim>\<open>Number.prototype\<close>, the four constructors and
  their methods.
\<close>

datatype home =
    ObjectPrototype | FunctionPrototype | StringPrototype | NumberPrototype
  | ObjectConstructor | FunctionConstructor | StringConstructor | NumberConstructor

text \<open>
  An object of the runtime: one of the eight above, a built-in function (where it lives,
  its \<^verbatim>\<open>name\<close> and its \<^verbatim>\<open>length\<close>), or a plain object that the walk has created by
  \<^verbatim>\<open>current[key] = {}\<close> on an object of the runtime (numbered in order of creation).
\<close>

datatype ref = Builtin home | Method home string nat | Created nat

text \<open>A number is only tested for truthiness; the constants of \<^verbatim>\<open>Number\<close> are kept apart.\<close>

datatype number =
    Integer int | MaxValue | MinValue | Epsilon
  | NotANumber | PositiveInfinity | NegativeInfinity

datatype jsValue =
    Undefined
  | Null
  | StringValue string
  | NumberValue number
  | ObjectValue ref

definition truthy :: "jsValue \<Rightarrow> bool" where
  "truthy v =
     (case v of
        Undefined \<Rightarrow> False
      | Null \<Rightarrow> False
      | StringValue s \<Rightarrow> s \<noteq> []
      | NumberValue n \<Rightarrow> (case n of Integer i \<Rightarrow> i \<noteq> 0 | NotANumber \<Rightarrow> False | _ \<Rightarrow> True)
      | ObjectValue r \<Rightarrow> True)"

fun isFunction :: "ref \<Rightarrow> bool" where
  "isFunction (Builtin h) =
     (h = FunctionPrototype \<or> h = ObjectConstructor \<or> h = FunctionConstructor
      \<or> h = StringConstructor \<or> h = NumberConstructor)"
| "isFunction (Method h n len) = True"
| "isFunction (Created n) = False"

text \<open>\<^verbatim>\<open>typeof v === "object"\<close>.\<close>

definition typeofObject :: "jsValue \<Rightarrow> bool" where
  "typeofObject v =
     (case v of Null \<Rightarrow> True | ObjectValue r \<Rightarrow> \<not> isFunction r | _ \<Rightarrow> False)"

subsection \<open>Properties of the built-in objects\<close>

text \<open>
  A property is a writable data property, a read-only data property, the accessor
  \<^verbatim>\<open>__proto__\<close> of \<^verbatim>\<open>Object.prototype\<close>, or one of the accessors \<^verbatim>\<open>caller\<close> and \<^verbatim>\<open>arguments\<close> of
  \<^verbatim>\<open>Function.prototype\<close>, whose getter and setter throw a TypeError.
\<close>

datatype slot = Data jsValue | ReadOnly jsValue | ProtoAccessor | Thrower

text \<open>The methods of each built-in object: key, \<^verbatim>\<open>name\<close> of the function, its \<^verbatim>\<open>length\<close>.\<close>

fun methods :: "home \<Rightarrow> (string \<times> string \<times> nat) list" where
  "methods ObjectPrototype =
     [(''__defineGetter__'', ''__defineGetter__'', 2), (''__defineSetter__'', ''__defineSetter__'', 2),
      (''hasOwnProperty'', ''hasOwnProperty'', 1), (''__lookupGetter__'', ''__lookupGetter__'', 1),
      (''__lookupSetter__'', ''__lookupSetter__'', 1), (''isPrototypeOf'', ''isPrototypeOf'', 1),
      (''propertyIsEnumerable'', ''propertyIsEnumerable'', 1), (''toString'', ''toString'', 0),
      (''valueOf'', ''valueOf'', 0), (''toLocaleString'', ''toLocaleString'', 0)]"
| "methods FunctionPrototype =
     [(''apply'', ''apply'', 2), (''bind'', ''bind'', 1), (''call'', ''call'', 1),
      (''toString'', ''toString'', 0)]"
| "methods StringPrototype =
     [(''anchor'', ''anchor'', 1), (''at'', ''at'', 1), (''big'', ''big'', 0), (''blink'', ''blink'', 0),
      (''bold'', ''bold'', 0), (''charAt'', ''charAt'', 1), (''charCodeAt'', ''charCodeAt'', 1),
      (''codePointAt'', ''codePointAt'', 1), (''concat'', ''concat'', 1), (''endsWith'', ''endsWith'', 1),
      (''fixed'', ''fixed'', 0), (''fontcolor'', ''fontcolor'', 1), (''fontsize'', ''fontsize'', 1),
      (''includes'', ''includes'', 1), (''indexOf'', ''indexOf'', 1),
      (''isWellFormed'', ''isWellFormed'', 0), (''italics'', ''italics'', 0),
      (''lastIndexOf'', ''lastIndexOf'', 1), (''link'', ''link'', 1),
      (''localeCompare'', ''localeCompare'', 1), (''match'', ''match'', 1),
      (''matchAll'', ''matchAll'', 1), (''normalize'', ''normalize'', 0), (''padEnd'', ''padEnd'', 1),
      (''padStart'', ''padStart'', 1), (''repeat'', ''repeat'', 1), (''replace'', ''replace'', 2),
      (''replaceAll'', ''replaceAll'', 2), (''search'', ''search'', 1), (''slice'', ''slice'', 2),
      (''small'', ''small'', 0), (''split'', ''split'', 2), (''strike'', ''strike'', 0),
      (''sub'', ''sub'', 0), (''substr'', ''substr'', 2), (''substring'', ''substring'', 2),
      (''sup'', ''sup'', 0), (''startsWith'', ''startsWith'', 1), (''toString'', ''toString'', 0),
      (''toLocaleLowerCase'', ''toLocaleLowerCase'', 0),
      (''toLocaleUpperCase'', ''toLocaleUpperCase'', 0), (''toLowerCase'', ''toLowerCase'', 0),
      (''toUpperCase'', ''toUpperCase'', 0), (''toWellFormed'', ''toWellFormed'', 0),
      (''trim'', ''trim'', 0), (''trimStart'', ''trimStart'', 0), (''trimLeft'', ''trimStart'', 0),
      (''trimEnd'', ''trimEnd'', 0), (''trimRight'', ''trimEnd'', 0), (''valueOf'', ''valueOf'', 0)]"
| "methods NumberPrototype =
     [(''toExponential'', ''toExponential'', 1), (''toFixed'', ''toFixed'', 1),
      (''toLocaleString'', ''toLocaleString'', 0), (''toPrecision'', ''toPrecision'', 1),
      (''toString'', ''toString'', 1), (''valueOf'', ''valueOf'', 0)]"
| "methods ObjectConstructor =
     [(''assign'', ''assign'', 2), (''getOwnPropertyDescriptor'', ''getOwnPropertyDescriptor'', 2),
      (''getOwnPropertyDescriptors'', ''getOwnPropertyDescriptors'', 1),
      (''getOwnPropertyNames'', ''getOwnPropertyNames'', 1),
      (''getOwnPropertySymbols'', ''getOwnPropertySymbols'', 1), (''hasOwn'', ''hasOwn'', 2),
      (''is'', ''is'', 2), (''preventExtensions'', ''preventExtensions'', 1), (''seal'', ''seal'', 1),
      (''create'', ''create'', 2), (''defineProperties'', ''defineProperties'', 2),
      (''defineProperty'', ''defineProperty'', 3), (''freeze'', ''freeze'', 1),
      (''getPrototypeOf'', ''getPrototypeOf'', 1), (''setPrototypeOf'', ''setPrototypeOf'', 2),
      (''isExtensible'', ''isExtensible'', 1), (''isFrozen'', ''isFrozen'', 1),
      (''isSealed'', ''isSealed'', 1), (''keys'', ''keys'', 1), (''entries'', ''entries'', 1),
      (''fromEntries'', ''fromEntries'', 1), (''values'', ''values'', 1), (''groupBy'', ''groupBy'', 2)]"
| "methods FunctionConstructor = []"
| "methods StringConstructor =
     [(''fromCharCode'', ''fromCharCode'', 1), (''fromCodePoint'', ''fromCodePoint'', 1),
      (''raw'', ''raw'', 1)]"
| "methods NumberConstructor =
     [(''isFinite'', ''isFinite'', 1), (''isInteger'', ''isInteger'', 1), (''isNaN'', ''isNaN'', 1),
      (''isSafeInteger'', ''isSafeInteger'', 1), (''parseFloat'', ''parseFloat'', 1),
      (''parseInt'', ''parseInt'', 2)]"

text \<open>The properties of the eight objects that are not methods.\<close>

fun special :: "home \<Rightarrow> (string \<times> slot) list" where
  "special ObjectPrototype =
     [(''constructor'', Data (ObjectValue (Builtin ObjectConstructor))),
      (''__proto__'', ProtoAccessor)]"
| "special FunctionPrototype =
     [(''length'', ReadOnly (NumberValue (Integer 0))), (''name'', ReadOnly (StringValue '''')),
      (''arguments'', Thrower), (''caller'', Thrower),
      (''constructor'', Data (ObjectValue (Builtin FunctionConstructor)))]"
| "special StringPrototype =
     [(''length'', ReadOnly (NumberValue (Integer 0))),
      (''constructor'', Data (ObjectValue (Builtin StringConstructor)))]"
| "special NumberPrototype =
     [(''constructor'', Data (ObjectValue (Builtin NumberConstructor)))]"
| "special ObjectConstructor =
     [(''length'', ReadOnly (NumberValue (Integer 1))), (''name'', ReadOnly (StringValue ''Object'')),
      (''prototype'', ReadOnly (ObjectValue (Builtin ObjectPrototype)))]"
| "special FunctionConstructor =
     [(''length'', ReadOnly (NumberValue (Integer 1))), (''name'', ReadOnly (StringValue ''Function'')),
      (''prototype'', ReadOnly (ObjectValue (Builtin FunctionPrototype)))]"
| "special StringConstructor =
     [(''length'', ReadOnly (NumberValue (Integer 1))), (''name'', ReadOnly (StringValue ''String'')),
      (''prototype'', ReadOnly (ObjectValue (Builtin StringPrototype)))]"
| "special NumberConstructor =
     [(''length'', ReadOnly (NumberValue (Integer 1))), (''name'', ReadOnly (StringValue ''Number'')),
      (''prototype'', ReadOnly (ObjectValue (Builtin NumberPrototype))),
      (''MAX_VALUE'', ReadOnly (NumberValue MaxValue)), (''MIN_VALUE'', ReadOnly (NumberValue MinValue)),
      (''NaN'', ReadOnly (NumberValue NotANumber)),
      (''NEGATIVE_INFINITY'', ReadOnly (NumberValue NegativeInfinity)),
      (''POSITIVE_INFINITY'', ReadOnly (NumberValue PositiveInfinity)),
      (''MAX_SAFE_INTEGER'', ReadOnly (NumberValue (Integer 9007199254740991))),
      (''MIN_SAFE_INTEGER'', ReadOnly (NumberValue (Integer (- 9007199254740991)))),
      (''EPSILON'', ReadOnly (NumberValue Epsilon))]"

text \<open>
  The own property an object of the runtime has from the start. A function has its
  read-only \<^verbatim>\<open>length\<close> and \<^verbatim>\<open>name\<close>; a created object has none.
\<close>

fun staticSlot :: "ref \<Rightarrow> string \<Rightarrow> slot option" where
  "staticSlot (Builtin h) k =
     (case map_of (special h) k of
        Some s \<Rightarrow> Some s
      | None \<Rightarrow>
          (case map_of (methods h) k of
             Some (n, len) \<Rightarrow> Some (Data (ObjectValue (Method h n len)))
           | None \<Rightarrow> None))"
| "staticSlot (Method h n len) k =
     (if k = ''length'' then Some (ReadOnly (NumberValue (Integer (int len))))
      else if k = ''name'' then Some (ReadOnly (StringValue n))
      else None)"
| "staticSlot (Created n) k = None"

fun prototypeOfHome :: "home \<Rightarrow> home option" where
  "prototypeOfHome ObjectPrototype = None"
| "prototypeOfHome FunctionPrototype = Some ObjectPrototype"
| "prototypeOfHome StringPrototype = Some ObjectPrototype"
| "prototypeOfHome NumberPrototype = Some ObjectPrototype"
| "prototypeOfHome ObjectConstructor = Some FunctionPrototype"
| "prototypeOfHome FunctionConstructor = Some FunctionPrototype"
| "prototypeOfHome StringConstructor = Some FunctionPrototype"
| "prototypeOfHome NumberConstructor = Some FunctionPrototype"

fun prototypeOf :: "ref \<Rightarrow> home option" where
  "prototypeOf (Builtin h) = prototypeOfHome h"
| "prototypeOf (Method h n len) = Some FunctionPrototype"
| "prototypeOf (Created n) = Some ObjectPrototype"

text \<open>A built-in object followed by its prototypes; no chain is longer than three.\<close>

definition homeChain :: "home \<Rightarrow> ref list" where
  "homeChain h =
     Builtin h #
       (case prototypeOfHome h of
          None \<Rightarrow> []
        | Some p \<Rightarrow>
            Builtin p # (case prototypeOfHome p of None \<Rightarrow> [] | Some q \<Rightarrow> [Builtin q]))"

definition prototypeChain :: "home option \<Rightarrow> ref list" where
  "prototypeChain p = (case p of None \<Rightarrow> [] | Some h \<Rightarrow> homeChain h)"

subsection \<open>The state of the runtime\<close>

text \<open>
  The walk changes the runtime only by creating or overwriting data properties on its
  objects: \<open>added\<close> holds them (the latest binding of an object and key first), \<open>created\<close>
  counts the plain objects made so far. No built-in property is ever changed: those the
  walk would assign are read-only or are reached through a setter.
\<close>

record runtime =
  added :: "((ref \<times> string) \<times> jsValue) list"
  created :: nat

definition pristine :: runtime where
  "pristine = \<lparr>added = [], created = 0\<rparr>"

definition ownSlot :: "runtime \<Rightarrow> ref \<Rightarrow> string \<Rightarrow> slot option" where
  "ownSlot rt r k =
     (case map_of (added rt) (r, k) of Some v \<Rightarrow> Some (Data v) | None \<Rightarrow> staticSlot r k)"

fun findSlot :: "runtime \<Rightarrow> ref list \<Rightarrow> string \<Rightarrow> slot option" where
  "findSlot rt [] k = None"
| "findSlot rt (r # rs) k =
     (case ownSlot rt r k of Some s \<Rightarrow> Some s | None \<Rightarrow> findSlot rt rs k)"

text \<open>
  The value of a property found on the chain, for a receiver whose prototype is \<open>p\<close>:
  \<^verbatim>\<open>__proto__\<close> reads as the receiver's prototype.
\<close>

fun readSlot :: "slot option \<Rightarrow> home option \<Rightarrow> error + jsValue" where
  "readSlot None p = Inr Undefined"
| "readSlot (Some (Data v)) p = Inr v"
| "readSlot (Some (ReadOnly v)) p = Inr v"
| "readSlot (Some ProtoAccessor) p =
     Inr (case p of None \<Rightarrow> Null | Some h \<Rightarrow> ObjectValue (Builtin h))"
| "readSlot (Some Thrower) p = Inl TypeError"

text \<open>
  \<^verbatim>\<open>current[key]\<close> when \<^verbatim>\<open>current\<close> is a value of the runtime. A primitive string has its
  \<^verbatim>\<open>length\<close> and its characters as own properties and inherits from \<^verbatim>\<open>String.prototype\<close>; a
  number inherits from \<^verbatim>\<open>Number.prototype\<close>. Reading a property of \<^verbatim>\<open>undefined\<close> or \<^verbatim>\<open>null\<close>
  throws (the walk never does: it replaces a falsy \<^verbatim>\<open>current\<close> by \<^verbatim>\<open>{}\<close>).
\<close>

fun readValue :: "runtime \<Rightarrow> jsValue \<Rightarrow> string \<Rightarrow> error + jsValue" where
  "readValue rt (StringValue s) key =
     (if key = ''length'' then Inr (NumberValue (Integer (int (length s))))
      else if isArrayIndex key \<and> numericValue key < int (length s)
        then Inr (StringValue [s ! nat (numericValue key)])
      else readSlot (findSlot rt (homeChain StringPrototype) key) (Some StringPrototype))"
| "readValue rt (NumberValue n) key =
     readSlot (findSlot rt (homeChain NumberPrototype) key) (Some NumberPrototype)"
| "readValue rt (ObjectValue r) key =
     readSlot (findSlot rt (r # prototypeChain (prototypeOf r)) key) (prototypeOf r)"
| "readValue rt Undefined key = Inl TypeError"
| "readValue rt Null key = Inl TypeError"

text \<open>What the walk assigns: the type string, or a fresh \<^verbatim>\<open>{}\<close>.\<close>

datatype assigned = TypeString string | EmptyObject

definition store :: "runtime \<Rightarrow> ref \<Rightarrow> string \<Rightarrow> assigned \<Rightarrow> runtime" where
  "store rt r k w =
     (case w of
        TypeString s \<Rightarrow> rt\<lparr>added := ((r, k), StringValue s) # added rt\<rparr>
      | EmptyObject \<Rightarrow>
          rt\<lparr>added := ((r, k), ObjectValue (Created (created rt))) # added rt,
             created := Suc (created rt)\<rparr>)"

text \<open>
  The setter of \<^verbatim>\<open>__proto__\<close> ignores a value that is not an object. Given an object, it
  sets the receiver's prototype; the walk assigns \<^verbatim>\<open>{}\<close> only where the read was falsy,
  and \<^verbatim>\<open>__proto__\<close> reads falsy (as \<^verbatim>\<open>null\<close>) on \<^verbatim>\<open>Object.prototype\<close> alone, whose prototype
  cannot be set: a TypeError.
\<close>

fun setProto :: "assigned \<Rightarrow> 'a \<Rightarrow> error + 'a" where
  "setProto (TypeString s) unchanged = Inr unchanged"
| "setProto EmptyObject unchanged = Inl TypeError"

text \<open>
  \<^verbatim>\<open>current[key] = w\<close> in non-strict code when \<^verbatim>\<open>current\<close> is a value of the runtime. On a
  primitive the assignment is dropped. On an object: an own writable property takes
  the value, a read-only one (own or inherited) drops it, an accessor runs its setter,
  and otherwise the property is created on the object.
\<close>

fun assignValue :: "runtime \<Rightarrow> jsValue \<Rightarrow> string \<Rightarrow> assigned \<Rightarrow> error + runtime" where
  "assignValue rt (ObjectValue r) key w =
     (case findSlot rt (r # prototypeChain (prototypeOf r)) key of
        None \<Rightarrow> Inr (store rt r key w)
      | Some (Data v) \<Rightarrow> Inr (store rt r key w)
      | Some (ReadOnly v) \<Rightarrow> Inr rt
      | Some ProtoAccessor \<Rightarrow> setProto w rt
      | Some Thrower \<Rightarrow> Inl TypeError)"
| "assignValue rt (StringValue s) key w = Inr rt"
| "assignValue rt (NumberValue n) key w = Inr rt"
| "assignValue rt Undefined key w = Inl TypeError"
| "assignValue rt Null key w = Inl TypeError"

section \<open>Path insertion: \<^verbatim>\<open>convertSchemaToJSON\<close>\<close>

text \<open>\<^verbatim>\<open>name.split(".")\<close>: never empty; the empty string gives one empty segment.\<close>

fun splitOn :: "char \<Rightarrow> string \<Rightarrow> string list" where
  "splitOn sep [] = [[]]"
| "splitOn sep (c # cs) =
     (if c = sep then [] # splitOn sep cs
      else (case splitOn sep cs of w # ws \<Rightarrow> (c # w) # ws | [] \<Rightarrow> [[c]]))"

subsection \<open>Reading and assigning on an object of the tree\<close>

text \<open>
  The tree's objects, and the fresh \<^verbatim>\<open>{}\<close> that replaces a falsy \<^verbatim>\<open>current\<close>, are plain
  objects that nothing in the runtime refers to. \<^verbatim>\<open>current[key]\<close> on one of them is its own
  property, a nested object of the tree or a type string, and otherwise what it inherits
  from \<^verbatim>\<open>Object.prototype\<close>.
\<close>

datatype seen = Child object | Value jsValue

definition truthySeen :: "seen \<Rightarrow> bool" where
  "truthySeen x = (case x of Child c \<Rightarrow> True | Value v \<Rightarrow> truthy v)"

definition typeofObjectSeen :: "seen \<Rightarrow> bool" where
  "typeofObjectSeen x = (case x of Child c \<Rightarrow> True | Value v \<Rightarrow> typeofObject v)"

definition inherited :: "runtime \<Rightarrow> string \<Rightarrow> error + jsValue" where
  "inherited rt key = readSlot (findSlot rt (homeChain ObjectPrototype) key) (Some ObjectPrototype)"

definition readProp :: "runtime \<Rightarrow> object \<Rightarrow> string \<Rightarrow> error + seen" where
  "readProp rt current key =
     (case map_of current key of
        Some (Str s) \<Rightarrow> Inr (Value (StringValue s))
      | Some (Obj c) \<Rightarrow> Inr (Child c)
      | None \<Rightarrow> (case inherited rt key of Inl e \<Rightarrow> Inl e | Inr v \<Rightarrow> Inr (Value v)))"

definition toNode :: "assigned \<Rightarrow> node" where
  "toNode w = (case w of TypeString s \<Rightarrow> Str s | EmptyObject \<Rightarrow> Obj [])"

text \<open>
  \<^verbatim>\<open>current[key] = w\<close> on such an object: an own property takes the value; a key that is
  not own is created on the object, unless what it inherits is read-only or an accessor.
\<close>

definition assignProp :: "runtime \<Rightarrow> object \<Rightarrow> string \<Rightarrow> assigned \<Rightarrow> error + object" where
  "assignProp rt current key w =
     (if map_of current key \<noteq> None then Inr (setProp key (toNode w) current)
      else
        (case findSlot rt (homeChain ObjectPrototype) key of
           None \<Rightarrow> Inr (setProp key (toNode w) current)
         | Some (Data v) \<Rightarrow> Inr (setProp key (toNode w) current)
         | Some (ReadOnly v) \<Rightarrow> Inr current
         | Some ProtoAccessor \<Rightarrow> setProto w current
         | Some Thrower \<Rightarrow> Inl TypeError))"

subsection \<open>The walk\<close>

text \<open>
  One iteration of \<^verbatim>\<open>path.forEach\<close> reads \<^verbatim>\<open>current[key]\<close>; assigns \<^verbatim>\<open>type\<close> (last segment) or
  \<^verbatim>\<open>{}\<close> when the value is falsy; assigns \<^verbatim>\<open>type\<close> when the segment is the last and the value's
  \<^verbatim>\<open>typeof\<close> is \<^verbatim>\<open>"object"\<close>; and reads \<^verbatim>\<open>current[key]\<close> again for \<^verbatim>\<open>current = current[key] || {}\<close>.
  \<open>isLast\<close> is \<^verbatim>\<open>index === path.length - 1\<close>. The iteration returns what \<^verbatim>\<open>current\<close> has become
  and the value read last.
\<close>

definition iterationProp ::
  "runtime \<Rightarrow> object \<Rightarrow> string \<Rightarrow> bool \<Rightarrow> string \<Rightarrow> error + (object \<times> seen)" where
  "iterationProp rt current key isLast ty =
     (case readProp rt current key of
        Inl e \<Rightarrow> Inl e
      | Inr v \<Rightarrow>
     (case (if \<not> truthySeen v
              then assignProp rt current key (if isLast then TypeString ty else EmptyObject)
            else if isLast \<and> typeofObjectSeen v
              then assignProp rt current key (TypeString ty)
            else Inr current) of
        Inl e \<Rightarrow> Inl e
      | Inr current1 \<Rightarrow>
     (case readProp rt current1 key of
        Inl e \<Rightarrow> Inl e
      | Inr x \<Rightarrow> Inr (current1, x))))"

text \<open>The same iteration when \<^verbatim>\<open>current\<close> is a value of the runtime: the runtime changes.\<close>

definition iterationValue ::
  "runtime \<Rightarrow> jsValue \<Rightarrow> string \<Rightarrow> bool \<Rightarrow> string \<Rightarrow> error + (runtime \<times> jsValue)" where
  "iterationValue rt current key isLast ty =
     (case readValue rt current key of
        Inl e \<Rightarrow> Inl e
      | Inr v \<Rightarrow>
     (case (if \<not> truthy v
              then assignValue rt current key (if isLast then TypeString ty else EmptyObject)
            else if isLast \<and> typeofObject v
              then assignValue rt current key (TypeString ty)
            else Inr rt) of
        Inl e \<Rightarrow> Inl e
      | Inr rt1 \<Rightarrow>
     (case readValue rt1 current key of
        Inl e \<Rightarrow> Inl e
      | Inr x \<Rightarrow> Inr (rt1, x))))"

text \<open>
  \<open>pathForEach\<close> is the iterations from an object of the tree (or a fresh \<^verbatim>\<open>{}\<close>) on. The
  source mutates that object in place; the function returns what it has become, with the
  state of the runtime. A nested object is walked and stored back under its key; a truthy
  value of the runtime takes the walk off the tree; a falsy one is replaced by a fresh
  \<^verbatim>\<open>{}\<close>, which is walked and dropped.

  \<open>valueForEach\<close> is the iterations once \<^verbatim>\<open>current\<close> is a value of the runtime: a primitive
  (a type string of the tree, a character, a number) or one of the runtime's objects.
  From there the tree is out of reach, and only the runtime can change.
\<close>

fun pathForEach :: "runtime \<Rightarrow> object \<Rightarrow> string list \<Rightarrow> string \<Rightarrow> error + (object \<times> runtime)"
and valueForEach :: "runtime \<Rightarrow> jsValue \<Rightarrow> string list \<Rightarrow> string \<Rightarrow> error + runtime" where
  "pathForEach rt current [] ty = Inr (current, rt)"
| "pathForEach rt current (key # rest) ty =
     (case iterationProp rt current key (rest = []) ty of
        Inl e \<Rightarrow> Inl e
      | Inr (current1, Child c) \<Rightarrow>
          (case pathForEach rt c rest ty of
             Inl e \<Rightarrow> Inl e
           | Inr (c', rt') \<Rightarrow> Inr (replaceProp key (Obj c') current1, rt'))
      | Inr (current1, Value x) \<Rightarrow>
          (if truthy x then
             (case valueForEach rt x rest ty of
                Inl e \<Rightarrow> Inl e
              | Inr rt' \<Rightarrow> Inr (current1, rt'))
           else
             (case pathForEach rt [] rest ty of
                Inl e \<Rightarrow> Inl e
              | Inr (detached, rt') \<Rightarrow> Inr (current1, rt'))))"
| "valueForEach rt current [] ty = Inr rt"
| "valueForEach rt current (key # rest) ty =
     (case iterationValue rt current key (rest = []) ty of
        Inl e \<Rightarrow> Inl e
      | Inr (rt1, x) \<Rightarrow>
          (if truthy x then valueForEach rt1 x rest ty
           else
             (case pathForEach rt1 [] rest ty of
                Inl e \<Rightarrow> Inl e
              | Inr (detached, rt') \<Rightarrow> Inr rt')))"

text \<open>\<^verbatim>\<open>field.type || "any"\<close>: the empty string is falsy.\<close>

definition typeOrAny :: "field \<Rightarrow> string" where
  "typeOrAny f = (if type f = [] then ''any'' else type f)"

text \<open>\<^verbatim>\<open>const path = field.name.split(".")\<close>.\<close>

definition fieldPath :: "field \<Rightarrow> string list" where
  "fieldPath f = splitOn CHR ''.'' (name f)"

text \<open>The body of \<^verbatim>\<open>validatedFields.forEach\<close>: one descriptor, walked from the root.\<close>

definition insertField :: "runtime \<Rightarrow> object \<Rightarrow> field \<Rightarrow> error + (object \<times> runtime)" where
  "insertField rt defs f = pathForEach rt defs (fieldPath f) (typeOrAny f)"

fun validatedFields_forEach ::
  "runtime \<Rightarrow> object \<Rightarrow> field list \<Rightarrow> error + (object \<times> runtime)" where
  "validatedFields_forEach rt defs [] = Inr (defs, rt)"
| "validatedFields_forEach rt defs (f # fs) =
     (case insertField rt defs f of
        Inl e \<Rightarrow> Inl e
      | Inr (defs', rt') \<Rightarrow> validatedFields_forEach rt' defs' fs)"

text \<open>
  Validation comes first; the tree starts empty only when it has succeeded. The function
  returns the tree; what the walk has done to the runtime stays behind in the process.
\<close>

definition convertSchemaToJSON :: "json \<Rightarrow> error + object" where
  "convertSchemaToJSON rawFields =
     (case fieldsSchema_parse rawFields of
        Inl e \<Rightarrow> Inl e
      | Inr validatedFields \<Rightarrow>
          (case validatedFields_forEach pristine [] validatedFields of
             Inl e \<Rightarrow> Inl e
           | Inr (defs, rt) \<Rightarrow> Inr defs))"

section \<open>Text rendering: \<^verbatim>\<open>getStringifiedSchema\<close>\<close>

text \<open>\<^verbatim>\<open>" ".repeat(n)\<close> throws a RangeError when \<open>n\<close> is negative.\<close>

definition repeatSpace :: "int \<Rightarrow> error + string" where
  "repeatSpace n = (if n < 0 then Inl RangeError else Inr (replicate (nat n) CHR '' ''))"

text \<open>\<^verbatim>\<open>lines.join("\n")\<close>.\<close>

fun joinLines :: "string list \<Rightarrow> string" where
  "joinLines [] = []"
| "joinLines [l] = l"
| "joinLines (l # l' # ls) = l @ ''\<newline>'' @ joinLines (l' # ls)"

text \<open>
  \<open>spaces\<close> is computed first, then the entries are mapped (a nested object by the
  recursive call with \<open>indent + 2\<close>), then the closing line's \<^verbatim>\<open>" ".repeat(indent - 2)\<close>.
  \<open>entries_map\<close> is the \<^verbatim>\<open>.map\<close> callback over \<^verbatim>\<open>Object.entries(defs)\<close>, with \<open>spaces\<close> already
  computed.
\<close>

fun getStringifiedSchema :: "object \<Rightarrow> int \<Rightarrow> error + string"
and entries_map :: "object \<Rightarrow> string \<Rightarrow> int \<Rightarrow> error + string list" where
  "getStringifiedSchema defs indent =
     (case repeatSpace indent of
        Inl e \<Rightarrow> Inl e
      | Inr spaces \<Rightarrow>
     (case entries_map defs spaces indent of
        Inl e \<Rightarrow> Inl e
      | Inr ls \<Rightarrow>
     (case repeatSpace (indent - 2) of
        Inl e \<Rightarrow> Inl e
      | Inr closing \<Rightarrow>
          Inr (''{'' @ ''\<newline>'' @ joinLines ls @ ''\<newline>'' @ closing @ ''}''))))"
| "entries_map [] spaces indent = Inr []"
| "entries_map ((key, Str v) # es) spaces indent =
     (case entries_map es spaces indent of
        Inl e \<Rightarrow> Inl e
      | Inr ls \<Rightarrow> Inr ((spaces @ key @ '': '' @ v @ '';'') # ls))"
| "entries_map ((key, Obj v) # es) spaces indent =
     (case getStringifiedSchema v (indent + 2) of
        Inl e \<Rightarrow> Inl e
      | Inr block \<Rightarrow>
     (case entries_map es spaces indent of
        Inl e \<Rightarrow> Inl e
      | Inr ls \<Rightarrow> Inr ((spaces @ key @ '': '' @ block @ '';'') # ls)))"

section \<open>Observations and specification-side notions\<close>

text \<open>
  The value a tree holds at a path of own keys: the last key's value, reached through
  nested objects only.
\<close>

fun getPath :: "object \<Rightarrow> string list \<Rightarrow> node option" where
  "getPath t [] = None"
| "getPath t [k] = map_of t k"
| "getPath t (k # k' # ks) =
     (case map_of t k of Some (Obj c) \<Rightarrow> getPath c (k' # ks) | _ \<Rightarrow> None)"

text \<open>
  The object a tree has at a path of own keys: the tree itself at the empty path, a
  nested mapping below.
\<close>

fun getObject :: "object \<Rightarrow> string list \<Rightarrow> object option" where
  "getObject t [] = Some t"
| "getObject t (k # ks) =
     (case map_of t k of Some (Obj c) \<Rightarrow> getObject c ks | _ \<Rightarrow> None)"

text \<open>
  No earlier descriptor is in the way of a path: nothing is stored at the path itself,
  and no proper prefix of it holds a type string.
\<close>

fun vacant :: "object \<Rightarrow> string list \<Rightarrow> bool" where
  "vacant t [] = False"
| "vacant t [k] = (map_of t k = None)"
| "vacant t (k # k' # ks) =
     (case map_of t k of
        None \<Rightarrow> True
      | Some (Obj c) \<Rightarrow> vacant c (k' # ks)
      | Some (Str s) \<Rightarrow> False)"


text \<open>Every type string stored in a tree is non-empty.\<close>

fun nonEmptyTypes :: "node \<Rightarrow> bool"
and nonEmptyTypesIn :: "object \<Rightarrow> bool" where
  "nonEmptyTypes (Str s) = (s \<noteq> [])"
| "nonEmptyTypes (Obj ps) = nonEmptyTypesIn ps"
| "nonEmptyTypesIn [] = True"
| "nonEmptyTypesIn ((k, v) # ps) = (nonEmptyTypes v \<and> nonEmptyTypesIn ps)"

text \<open>A validated descriptor and a raw one, with the metadata left at its defaults.\<close>

definition descriptor :: "string \<Rightarrow> string \<Rightarrow> field" where
  "descriptor n t = \<lparr>name = n, type = t, unit = '''', hidden = False, description = ''''\<rparr>"

definition rawDescriptor :: "string \<Rightarrow> string \<Rightarrow> json" where
  "rawDescriptor n t = JObject [(''name'', JString n), (''type'', JString t)]"

subsection \<open>Shape validation in the specification's words\<close>

definition isString :: "json \<Rightarrow> bool" where
  "isString v = (case v of JString s \<Rightarrow> True | _ \<Rightarrow> False)"

definition isBoolean :: "json \<Rightarrow> bool" where
  "isBoolean v = (case v of JBoolean b \<Rightarrow> True | _ \<Rightarrow> False)"

text \<open>A field that is present and not of the primitive type expected for it.\<close>

definition wrongType :: "(json \<Rightarrow> bool) \<Rightarrow> json \<Rightarrow> bool" where
  "wrongType expected v = (v \<noteq> JUndefined \<and> \<not> expected v)"

text \<open>
  An element fails shape validation when it is not an object, when its name is missing,
  or when one of the five fields is present with the wrong primitive type.
\<close>

definition failsShape :: "json \<Rightarrow> bool" where
  "failsShape x =
     (case x of
        JObject ps \<Rightarrow>
          getProp ps ''name'' = JUndefined
          \<or> wrongType isString (getProp ps ''name'')
          \<or> wrongType isString (getProp ps ''type'')
          \<or> wrongType isString (getProp ps ''unit'')
          \<or> wrongType isBoolean (getProp ps ''hidden'')
          \<or> wrongType isString (getProp ps ''description'')
      | _ \<Rightarrow> True)"

subsection \<open>The rendered block in the specification's words\<close>

text \<open>
  An opening brace on the first line; one text per direct key, made of the indentation,
  the key, a colon and a space, then the type or the sub-block rendered two spaces
  deeper, then a semicolon; a closing brace indented two spaces less than the entries.
\<close>

fun blockText :: "object \<Rightarrow> nat \<Rightarrow> string"
and entryTexts :: "object \<Rightarrow> nat \<Rightarrow> string list" where
  "blockText t indent =
     ''{'' @ ''\<newline>'' @ joinLines (entryTexts t indent) @ ''\<newline>''
       @ replicate (indent - 2) CHR '' '' @ ''}''"
| "entryTexts [] indent = []"
| "entryTexts ((k, Str ty) # es) indent =
     (replicate indent CHR '' '' @ k @ '': '' @ ty @ '';'') # entryTexts es indent"
| "entryTexts ((k, Obj c) # es) indent =
     (replicate indent CHR '' '' @ k @ '': '' @ blockText c (indent + 2) @ '';'')
       # entryTexts es indent"

subsection \<open>The order of the keys\<close>

text \<open>
  The direct keys of an object that are array indices, and those that are not, each in
  the order they are enumerated and rendered.
\<close>

definition indexKeys :: "object \<Rightarrow> string list" where
  "indexKeys t = filter isArrayIndex (map fst t)"

definition namedKeys :: "object \<Rightarrow> string list" where
  "namedKeys t = filter (\<lambda>k. \<not> isArrayIndex k) (map fst t)"

text \<open>
  A list of keys in which every array index is preceded by array indices only, none of
  them greater; and a tree in which every object's keys are so.
\<close>

fun orderedKeys :: "string list \<Rightarrow> bool" where
  "orderedKeys [] = True"
| "orderedKeys [k] = True"
| "orderedKeys (k # k' # ks) =
     ((isArrayIndex k' \<longrightarrow> isArrayIndex k \<and> numericValue k \<le> numericValue k')
      \<and> orderedKeys (k' # ks))"

fun orderedNode :: "node \<Rightarrow> bool"
and orderedIn :: "object \<Rightarrow> bool" where
  "orderedNode (Str s) = True"
| "orderedNode (Obj ps) = (orderedKeys (map fst ps) \<and> orderedIn ps)"
| "orderedIn [] = True"
| "orderedIn ((k, v) # ps) = (orderedNode v \<and> orderedIn ps)"

text \<open>
  How a tree can differ from an earlier state of itself: at every level the keys that
  are not array indices stay in place and new ones come after them; a non-empty type
  string stays; a nested mapping is still a nested mapping, grown in the same way, or
  has been replaced by a non-empty type string.
\<close>

inductive evolves :: "object \<Rightarrow> object \<Rightarrow> bool" where
  "prefix (namedKeys t) (namedKeys t') \<Longrightarrow>
   (\<forall>k s. map_of t k = Some (Str s) \<longrightarrow> s \<noteq> [] \<longrightarrow> map_of t' k = Some (Str s)) \<Longrightarrow>
   (\<forall>k c. map_of t k = Some (Obj c) \<longrightarrow>
      (\<exists>s. s \<noteq> [] \<and> map_of t' k = Some (Str s))
      \<or> (\<exists>c'. map_of t' k = Some (Obj c') \<and> evolves c c')) \<Longrightarrow>
   evolves t t'"

section \<open>Lemmas\<close>

subsection \<open>Own properties\<close>

lemma map_of_addProp:
  "map_of ps k = None \<Longrightarrow> map_of (addProp k v ps) k' = (if k' = k then Some v else map_of ps k')"
  by (induction ps) (auto split: if_splits)

lemma map_of_replaceProp:
  "map_of (replaceProp k v ps) k' = (if k' = k \<and> map_of ps k \<noteq> None then Some v else map_of ps k')"
  by (induction ps) auto

lemma map_of_setProp:
  "map_of (setProp k v ps) k' = (if k' = k then Some v else map_of ps k')"
  by (auto simp: setProp_def map_of_addProp map_of_replaceProp)

lemma keys_replaceProp: "map fst (replaceProp k v ps) = map fst ps"
  by (induction ps) auto

lemma keys_setProp: "map_of ps k = Some v' \<Longrightarrow> map fst (setProp k v ps) = map fst ps"
  by (simp add: setProp_def keys_replaceProp)

lemma replaceProp_same: "map_of ps k = Some v \<Longrightarrow> replaceProp k v ps = ps"
  by (induction ps) (auto split: if_splits)

lemma replaceProp_twice: "replaceProp k v (replaceProp k v' ps) = replaceProp k v ps"
  by (induction ps) auto

lemma replaceProp_addProp:
  "map_of ps k = None \<Longrightarrow> replaceProp k v (addProp k v' ps) = addProp k v ps"
  by (induction ps) (auto split: if_splits)

lemma replaceProp_setProp: "replaceProp k v (setProp k v' ps) = setProp k v ps"
  by (simp add: setProp_def replaceProp_twice replaceProp_addProp map_of_replaceProp)

subsection \<open>What a plain object inherits\<close>

lemma objectPrototype_slot:
  "findSlot rt (homeChain ObjectPrototype) k = Some s \<Longrightarrow>
     (\<exists>v. s = Data v) \<or> (s = ProtoAccessor \<and> k = ''__proto__'')"
  by (auto simp: homeChain_def ownSlot_def split: option.splits if_splits)


subsection \<open>One iteration on an object of the tree\<close>

lemma readProp_Str: "map_of t k = Some (Str s) \<Longrightarrow> readProp rt t k = Inr (Value (StringValue s))"
  by (simp add: readProp_def)

lemma readProp_Obj: "map_of t k = Some (Obj c) \<Longrightarrow> readProp rt t k = Inr (Child c)"
  by (simp add: readProp_def)

lemma readProp_None:
  "map_of t k = None \<Longrightarrow>
     readProp rt t k = (case inherited rt k of Inl e \<Rightarrow> Inl e | Inr v \<Rightarrow> Inr (Value v))"
  by (simp add: readProp_def)

lemma readProp_Child: "readProp rt t k = Inr (Child c) \<Longrightarrow> map_of t k = Some (Obj c)"
  by (auto simp: readProp_def split: option.splits node.splits sum.splits)

lemma assignProp_own:
  "map_of t k \<noteq> None \<Longrightarrow> assignProp rt t k w = Inr (setProp k (toNode w) t)"
  by (simp add: assignProp_def)

lemma iteration_terminal:
  "map_of t k = Some (Str s) \<Longrightarrow> s \<noteq> [] \<Longrightarrow>
     iterationProp rt t k l ty = Inr (t, Value (StringValue s))"
  by (simp add: iterationProp_def readProp_Str truthySeen_def truthy_def typeofObjectSeen_def
      typeofObject_def)

lemma iteration_nested_last:
  "map_of t k = Some (Obj c) \<Longrightarrow>
     iterationProp rt t k True ty = Inr (setProp k (Str ty) t, Value (StringValue ty))"
  by (simp add: iterationProp_def readProp_Obj truthySeen_def typeofObjectSeen_def assignProp_own
      toNode_def readProp_Str map_of_setProp)

lemma iteration_nested:
  "map_of t k = Some (Obj c) \<Longrightarrow> iterationProp rt t k False ty = Inr (t, Child c)"
  by (simp add: iterationProp_def readProp_Obj truthySeen_def)

lemma iteration_absent:
  "map_of t k = None \<Longrightarrow> inherited rt k = Inr Undefined \<Longrightarrow>
     iterationProp rt t k l ty =
       Inr (if l then (setProp k (Str ty) t, Value (StringValue ty))
            else (setProp k (Obj []) t, Child []))"
proof -
  assume a: "map_of t k = None" and i: "inherited rt k = Inr Undefined"
  have s: "assignProp rt t k w = Inr (setProp k (toNode w) t)" for w
  proof (cases "findSlot rt (homeChain ObjectPrototype) k")
    case None
    with a show ?thesis by (simp add: assignProp_def)
  next
    case (Some s)
    with objectPrototype_slot[OF Some] i a show ?thesis
      by (auto simp: assignProp_def inherited_def)
  qed
  show ?thesis
    using a i
    by (simp add: iterationProp_def readProp_None truthySeen_def truthy_def s toNode_def
        readProp_Str readProp_Obj map_of_setProp)
qed

subsection \<open>Paths of own keys\<close>

lemma exact_noop:
  "getPath t p = Some (Str s) \<Longrightarrow> s \<noteq> [] \<Longrightarrow> pathForEach rt t p ty = Inr (t, rt)"
proof (induction t p rule: getPath.induct)
  case (1 t)
  then show ?case by simp
next
  case (2 t k)
  then show ?case by (simp add: iteration_terminal truthy_def)
next
  case (3 t k k' ks)
  from "3.prems" obtain c where c: "map_of t k = Some (Obj c)" and g: "getPath c (k' # ks) = Some (Str s)"
    by (auto split: option.splits node.splits)
  from "3.IH"[OF c refl g "3.prems"(2)] have "pathForEach rt c (k' # ks) ty = Inr (c, rt)" .
  with c show ?case by (simp add: iteration_nested replaceProp_same)
qed

lemma collapse:
  "getPath t p = Some (Obj c) \<Longrightarrow>
   \<exists>t'. pathForEach rt t p ty = Inr (t', rt) \<and> getPath t' p = Some (Str ty) \<and> map fst t' = map fst t"
proof (induction t p arbitrary: c rule: getPath.induct)
  case (1 t)
  then show ?case by simp
next
  case (2 t k)
  then have m: "map_of t k = Some (Obj c)" by simp
  show ?case
  proof (cases "ty = []")
    case True
    with m show ?thesis
      by (simp add: iteration_nested_last truthy_def map_of_setProp keys_setProp)
  next
    case False
    with m show ?thesis
      by (simp add: iteration_nested_last truthy_def map_of_setProp keys_setProp)
  qed
next
  case (3 t k k' ks)
  from "3.prems" obtain c0 where c0: "map_of t k = Some (Obj c0)" and g: "getPath c0 (k' # ks) = Some (Obj c)"
    by (auto split: option.splits node.splits)
  from "3.IH"[OF c0 refl g] obtain c1 where
    "pathForEach rt c0 (k' # ks) ty = Inr (c1, rt)" "getPath c1 (k' # ks) = Some (Str ty)" by blast
  with c0 show ?case by (simp add: iteration_nested map_of_replaceProp keys_replaceProp)
qed


subsection \<open>What can throw\<close>





















subsection \<open>One iteration, in general\<close>

lemma setProto_result: "setProto w x = Inr y \<Longrightarrow> y = x"
  by (cases w) auto

lemma assignProp_result:
  "assignProp rt t k w = Inr t1 \<Longrightarrow> t1 = t \<or> t1 = setProp k (toNode w) t"
  by (auto simp: assignProp_def split: if_splits option.splits slot.splits dest: setProto_result)

lemma iterationProp_cases:
  assumes "iterationProp rt t k l ty = Inr (t1, x)"
  shows "readProp rt t1 k = Inr x"
    and "(case map_of t k of
            Some (Str s) \<Rightarrow> (if s = [] then t1 = setProp k (if l then Str ty else Obj []) t else t1 = t)
          | Some (Obj c) \<Rightarrow> (if l then t1 = setProp k (Str ty) t else t1 = t)
          | None \<Rightarrow> t1 = t \<or> t1 = setProp k (Str ty) t \<or> (\<not> l \<and> t1 = setProp k (Obj []) t))"
proof -
  from assms show "readProp rt t1 k = Inr x"
    by (auto simp: iterationProp_def split: sum.splits)
  show "(case map_of t k of
            Some (Str s) \<Rightarrow> (if s = [] then t1 = setProp k (if l then Str ty else Obj []) t else t1 = t)
          | Some (Obj c) \<Rightarrow> (if l then t1 = setProp k (Str ty) t else t1 = t)
          | None \<Rightarrow> t1 = t \<or> t1 = setProp k (Str ty) t \<or> (\<not> l \<and> t1 = setProp k (Obj []) t))"
  proof (cases "map_of t k")
    case None
    from assms show ?thesis
      unfolding None
      by (auto simp: iterationProp_def toNode_def split: sum.splits if_splits dest!: assignProp_result)
  next
    case (Some v)
    show ?thesis
    proof (cases v)
      case (Str s)
      with Some assms show ?thesis
        by (auto simp: iterationProp_def readProp_Str truthySeen_def truthy_def typeofObjectSeen_def
            typeofObject_def assignProp_own toNode_def split: sum.splits if_splits)
    next
      case (Obj c)
      with Some assms show ?thesis
        by (auto simp: iterationProp_def readProp_Obj truthySeen_def typeofObjectSeen_def
            assignProp_own toNode_def split: sum.splits if_splits)
    qed
  qed
qed

subsection \<open>Invariant of the built tree\<close>

lemma nonEmptyTypesIn_map_of:
  "nonEmptyTypesIn t \<Longrightarrow> map_of t k = Some v \<Longrightarrow> nonEmptyTypes v"
  by (induction t) (auto split: if_splits)

lemma nonEmptyTypesIn_addProp:
  "nonEmptyTypesIn t \<Longrightarrow> nonEmptyTypes v \<Longrightarrow> nonEmptyTypesIn (addProp k v t)"
  by (induction t) auto

lemma nonEmptyTypesIn_replaceProp:
  "nonEmptyTypesIn t \<Longrightarrow> nonEmptyTypes v \<Longrightarrow> nonEmptyTypesIn (replaceProp k v t)"
  by (induction t) auto

lemma nonEmptyTypesIn_setProp:
  "nonEmptyTypesIn t \<Longrightarrow> nonEmptyTypes v \<Longrightarrow> nonEmptyTypesIn (setProp k v t)"
  by (simp add: setProp_def nonEmptyTypesIn_addProp nonEmptyTypesIn_replaceProp)

lemma nonEmptyTypesIn_iteration:
  assumes "iterationProp rt t k l ty = Inr (t1, x)" and "nonEmptyTypesIn t" and "ty \<noteq> []"
  shows "nonEmptyTypesIn t1"
  using iterationProp_cases(2)[OF assms(1)] assms(2,3)
  by (auto split: option.splits node.splits if_splits intro: nonEmptyTypesIn_setProp)

lemma nonEmptyTypesIn_walk:
  "pathForEach rt t p ty = Inr (t', rt') \<Longrightarrow> nonEmptyTypesIn t \<Longrightarrow> ty \<noteq> [] \<Longrightarrow> nonEmptyTypesIn t'"
  "valueForEach rt v p ty = Inr rt' \<Longrightarrow> True"
proof (induction rt t p ty and rt v p ty arbitrary: t' rt' and rt' rule: pathForEach_valueForEach.induct)
  case (1 rt current ty)
  then show ?case by simp
next
  case (2 rt current key rest ty)
  from "2.prems"(1) obtain current1 x where it: "iterationProp rt current key (rest = []) ty = Inr (current1, x)"
    by (auto split: sum.splits)
  have n1: "nonEmptyTypesIn current1"
    using nonEmptyTypesIn_iteration[OF it "2.prems"(2,3)] .
  show ?case
  proof (cases x)
    case (Child c)
    with "2.prems"(1) it obtain c' where w: "pathForEach rt c rest ty = Inr (c', rt')"
      and t': "t' = replaceProp key (Obj c') current1"
      by (auto split: sum.splits)
    from iterationProp_cases(1)[OF it] Child have "map_of current1 key = Some (Obj c)"
      by (simp add: readProp_Child)
    with n1 have "nonEmptyTypesIn c" using nonEmptyTypesIn_map_of by fastforce
    from "2.IH"(1)[OF it refl Child w this "2.prems"(3)] have "nonEmptyTypesIn c'" .
    with t' n1 show ?thesis by (simp add: nonEmptyTypesIn_replaceProp)
  next
    case (Value v)
    with "2.prems"(1) it have "t' = current1"
      by (auto split: sum.splits if_splits)
    with n1 show ?thesis by simp
  qed
qed simp_all

lemma typeOrAny_nonempty: "typeOrAny f \<noteq> []"
  by (simp add: typeOrAny_def)

lemma nonEmptyTypesIn_forEach:
  "nonEmptyTypesIn t \<Longrightarrow> validatedFields_forEach rt t fs = Inr (t', rt') \<Longrightarrow> nonEmptyTypesIn t'"
proof (induction fs arbitrary: t rt)
  case Nil
  then show ?case by simp
next
  case (Cons f fs)
  from Cons.prems(2) obtain t1 rt1 where s: "insertField rt t f = Inr (t1, rt1)"
    and r: "validatedFields_forEach rt1 t1 fs = Inr (t', rt')"
    by (auto split: sum.splits)
  from s Cons.prems(1) have "nonEmptyTypesIn t1"
    unfolding insertField_def using nonEmptyTypesIn_walk(1) typeOrAny_nonempty by blast
  from Cons.IH[OF this r] show ?case .
qed

lemma getPath_nonempty:
  "nonEmptyTypesIn t \<Longrightarrow> getPath t p = Some (Str s) \<Longrightarrow> s \<noteq> []"
proof (induction t p rule: getPath.induct)
  case (1 t)
  then show ?case by simp
next
  case (2 t k)
  then show ?case using nonEmptyTypesIn_map_of by fastforce
next
  case (3 t k k' ks)
  from "3.prems" obtain c where c: "map_of t k = Some (Obj c)" and g: "getPath c (k' # ks) = Some (Str s)"
    by (auto split: option.splits node.splits)
  have "nonEmptyTypesIn c" using nonEmptyTypesIn_map_of[OF "3.prems"(1) c] by simp
  from "3.IH"[OF c refl this g] show ?case .
qed

lemma forEach_append:
  "validatedFields_forEach rt t (fs @ gs) =
     (case validatedFields_forEach rt t fs of
        Inl e \<Rightarrow> Inl e
      | Inr (t', rt') \<Rightarrow> validatedFields_forEach rt' t' gs)"
  by (induction fs arbitrary: t rt) (auto split: sum.splits)

lemma forEach_snoc:
  "validatedFields_forEach rt t fs = Inr (t', rt') \<Longrightarrow>
     validatedFields_forEach rt t (fs @ [f]) = insertField rt' t' f"
  by (simp add: forEach_append split: sum.splits prod.splits)

lemma parseElements_append:
  "parseElements (xs @ ys) =
     (case parseElements xs of
        Inl e \<Rightarrow> Inl e
      | Inr fs \<Rightarrow> (case parseElements ys of Inl e \<Rightarrow> Inl e | Inr gs \<Rightarrow> Inr (fs @ gs)))"
  by (induction xs) (auto split: sum.splits)

lemma convert_run:
  "convertSchemaToJSON (JArray xs) = Inr t \<Longrightarrow>
     \<exists>fs rt. parseElements xs = Inr fs \<and> validatedFields_forEach pristine [] fs = Inr (t, rt)"
  by (auto simp: convertSchemaToJSON_def split: sum.splits)

lemma convert_snoc:
  assumes "parseElements xs = Inr fs" and "validatedFields_forEach pristine [] fs = Inr (t, rt)"
    and "fieldSchema_parse x = Inr f"
  shows "convertSchemaToJSON (JArray (xs @ [x])) =
     (case insertField rt t f of Inl e \<Rightarrow> Inl e | Inr (t', rt') \<Rightarrow> Inr t')"
  using assms by (simp add: convertSchemaToJSON_def parseElements_append forEach_snoc)

subsection \<open>A walk on a fresh object\<close>


subsection \<open>Vacant paths\<close>

lemma vacant_empty: "p \<noteq> [] \<Longrightarrow> vacant [] p"
proof (cases p)
  case (Cons k ks)
  then show ?thesis by (cases ks) auto
qed simp

lemma vacant_path:
  "vacant t p \<Longrightarrow> \<forall>k\<in>set p. inherited rt k = Inr Undefined
   \<Longrightarrow> \<exists>t'. pathForEach rt t p ty = Inr (t', rt) \<and> getPath t' p = Some (Str ty)"
proof (induction p arbitrary: t)
  case Nil
  then show ?case by simp
next
  case (Cons k ks)
  from Cons.prems(2) have i: "inherited rt k = Inr Undefined"
    and r: "\<forall>k\<in>set ks. inherited rt k = Inr Undefined" by auto
  show ?case
  proof (cases ks)
    case Nil
    with Cons.prems(1) have m: "map_of t k = None" by simp
    show ?thesis
      unfolding Nil using m i
      by (cases "ty = []") (simp_all add: iteration_absent truthy_def map_of_setProp)
  next
    case (Cons k' ks')
    show ?thesis
    proof (cases "map_of t k")
      case None
      have "vacant [] ks" using Cons by (simp add: vacant_empty)
      from Cons.IH[OF this r] obtain c where
        w: "pathForEach rt [] ks ty = Inr (c, rt)" and g: "getPath c ks = Some (Str ty)" by blast
      from None i w g show ?thesis
        unfolding Cons
        by (simp add: iteration_absent map_of_replaceProp map_of_setProp)
    next
      case (Some v)
      with Cons.prems(1) Cons obtain c0 where v: "v = Obj c0" and vc: "vacant c0 ks"
        by (cases v) auto
      from Cons.IH[OF vc r] obtain c where
        w: "pathForEach rt c0 ks ty = Inr (c, rt)" and g: "getPath c ks = Some (Str ty)" by blast
      from Some v w g show ?thesis
        unfolding Cons
        by (simp add: iteration_nested map_of_replaceProp)
    qed
  qed
qed

lemma getPath_prefix:
  "getPath t (p @ q) = Some v \<Longrightarrow> p \<noteq> [] \<Longrightarrow> q \<noteq> [] \<Longrightarrow> \<exists>c. getPath t p = Some (Obj c)"
proof (induction t p rule: getPath.induct)
  case (1 t)
  then show ?case by simp
next
  case (2 t k)
  from "2.prems"(3) obtain k2 ks where q: "q = k2 # ks" by (cases q) auto
  with "2.prems"(1) show ?case by (auto split: option.splits node.splits)
next
  case (3 t k k' ks)
  from "3.prems"(1) obtain c where c: "map_of t k = Some (Obj c)" and g: "getPath c ((k' # ks) @ q) = Some v"
    by (auto split: option.splits node.splits)
  from "3.IH"[OF c refl g _ "3.prems"(3)] c show ?case by simp
qed

lemma longer_name_creates_mapping:
  assumes "vacant t (p @ q)" and "p \<noteq> []" and "q \<noteq> []"
    and "\<forall>k\<in>set (p @ q). inherited rt k = Inr Undefined"
  shows "\<exists>t' c. pathForEach rt t (p @ q) ty = Inr (t', rt) \<and> getPath t' p = Some (Obj c)"
proof -
  from vacant_path[OF assms(1,4), of ty] obtain t' where
    w: "pathForEach rt t (p @ q) ty = Inr (t', rt)" and g: "getPath t' (p @ q) = Some (Str ty)"
    by blast
  from getPath_prefix[OF g assms(2,3)] w show ?thesis by blast
qed

subsection \<open>A walk below a type string\<close>








subsection \<open>Creation order of the keys\<close>

lemma namedKeys_addProp:
  "namedKeys (addProp k v t) = namedKeys t @ (if isArrayIndex k then [] else [k])"
  by (induction t) (auto simp: namedKeys_def comesBefore_def)

lemma namedKeys_replaceProp: "namedKeys (replaceProp k v t) = namedKeys t"
  by (simp add: namedKeys_def keys_replaceProp)

lemma namedKeys_setProp:
  "namedKeys (setProp k v t) =
     namedKeys t @ (if isArrayIndex k \<or> map_of t k \<noteq> None then [] else [k])"
  by (simp add: setProp_def namedKeys_addProp namedKeys_replaceProp)

lemma evolves_node: "(case v of Obj c \<Rightarrow> evolves c c | Str s \<Rightarrow> True)"
proof (induction v)
  case (Str s)
  then show ?case by simp
next
  case (Obj ps)
  have "evolves c c" if "map_of ps k = Some (Obj c)" for k c
  proof -
    from that have "(k, Obj c) \<in> set ps" by (rule map_of_SomeD)
    from Obj[OF this, of "Obj c"] show ?thesis by simp
  qed
  then have "evolves ps ps"
    by (intro evolves.intros) auto
  then show ?case by simp
qed

lemma evolves_refl: "evolves t t"
  using evolves_node[of "Obj t"] by simp

lemma evolvesD:
  assumes "evolves t t'"
  shows "prefix (namedKeys t) (namedKeys t')"
    and "\<And>k s. map_of t k = Some (Str s) \<Longrightarrow> s \<noteq> [] \<Longrightarrow> map_of t' k = Some (Str s)"
    and "\<And>k c. map_of t k = Some (Obj c) \<Longrightarrow>
        (\<exists>s. s \<noteq> [] \<and> map_of t' k = Some (Str s)) \<or> (\<exists>c'. map_of t' k = Some (Obj c') \<and> evolves c c')"
proof -
  from assms show "prefix (namedKeys t) (namedKeys t')" by cases
next
  fix k s assume "map_of t k = Some (Str s)" "s \<noteq> []"
  with assms show "map_of t' k = Some (Str s)" by cases blast
next
  fix k c assume "map_of t k = Some (Obj c)"
  with assms show "(\<exists>s. s \<noteq> [] \<and> map_of t' k = Some (Str s)) \<or> (\<exists>c'. map_of t' k = Some (Obj c') \<and> evolves c c')"
    by cases blast
qed

lemma evolves_trans: "evolves a b \<Longrightarrow> evolves b c \<Longrightarrow> evolves a c"
proof (induction a b arbitrary: c rule: evolves.induct)
  case (1 t t')
  note p = evolvesD(1)[OF "1.prems"]
  note s = evolvesD(2)[OF "1.prems"]
  note o = evolvesD(3)[OF "1.prems"]
  show ?case
  proof (intro evolves.intros allI impI)
    show "prefix (namedKeys t) (namedKeys c)" using "1.hyps"(1) p by (rule prefix_order.trans)
  next
    fix k s assume "map_of t k = Some (Str s)" "s \<noteq> []"
    with "1.hyps"(2) s show "map_of c k = Some (Str s)" by blast
  next
    fix k d assume m: "map_of t k = Some (Obj d)"
    from "1.IH" m consider (str) s where "s \<noteq> []" "map_of t' k = Some (Str s)"
      | (obj) d' where "map_of t' k = Some (Obj d')" "\<And>x. evolves d' x \<Longrightarrow> evolves d x"
      by blast
    then show "(\<exists>s. s \<noteq> [] \<and> map_of c k = Some (Str s))
        \<or> (\<exists>c'. map_of c k = Some (Obj c') \<and> evolves d c')"
    proof cases
      case str
      with s show ?thesis by blast
    next
      case obj
      from o[OF obj(1)] obj(2) show ?thesis by blast
    qed
  qed
qed

lemma evolves_path:
  "evolves t t' \<Longrightarrow> getObject t p = Some c \<Longrightarrow> getObject t' p = Some c'
   \<Longrightarrow> prefix (namedKeys c) (namedKeys c')"
proof (induction p arbitrary: t t')
  case Nil
  then show ?case by (auto dest: evolvesD(1))
next
  case (Cons k ks)
  from Cons.prems(2) obtain d where d: "map_of t k = Some (Obj d)" and gd: "getObject d ks = Some c"
    by (auto split: option.splits node.splits)
  from Cons.prems(3) obtain d' where d': "map_of t' k = Some (Obj d')" and gd': "getObject d' ks = Some c'"
    by (auto split: option.splits node.splits)
  from evolvesD(3)[OF Cons.prems(1) d] d' have "evolves d d'" by auto
  from Cons.IH[OF this gd gd'] show ?case .
qed

lemma evolves_setProp:
  assumes "case map_of t k of
             None \<Rightarrow> True
           | Some (Str s) \<Rightarrow> s = []
           | Some (Obj c) \<Rightarrow> (\<exists>s. s \<noteq> [] \<and> v = Str s) \<or> (\<exists>c'. v = Obj c' \<and> evolves c c')"
  shows "evolves t (setProp k v t)"
proof (intro evolves.intros allI impI)
  show "prefix (namedKeys t) (namedKeys (setProp k v t))"
    by (simp add: namedKeys_setProp)
next
  fix k' s assume "map_of t k' = Some (Str s)" "s \<noteq> []"
  with assms show "map_of (setProp k v t) k' = Some (Str s)"
    by (auto simp: map_of_setProp)
next
  fix k' c assume m: "map_of t k' = Some (Obj c)"
  show "(\<exists>s. s \<noteq> [] \<and> map_of (setProp k v t) k' = Some (Str s))
      \<or> (\<exists>c'. map_of (setProp k v t) k' = Some (Obj c') \<and> evolves c c')"
  proof (cases "k' = k")
    case True
    with m assms show ?thesis by (auto simp: map_of_setProp)
  next
    case False
    with m evolves_refl show ?thesis by (auto simp: map_of_setProp)
  qed
qed

lemma walk_evolves:
  "pathForEach rt t p ty = Inr (t', rt') \<Longrightarrow> ty \<noteq> [] \<Longrightarrow> evolves t t'"
  "valueForEach rt v p ty = Inr rt' \<Longrightarrow> True"
proof (induction rt t p ty and rt v p ty arbitrary: t' rt' and rt' rule: pathForEach_valueForEach.induct)
  case (1 rt current ty)
  then show ?case by (simp add: evolves_refl)
next
  case (2 rt current key rest ty)
  from "2.prems"(1) obtain current1 x where it: "iterationProp rt current key (rest = []) ty = Inr (current1, x)"
    by (auto split: sum.splits)
  note rd = iterationProp_cases(1)[OF it]
  note cs = iterationProp_cases(2)[OF it]
  show ?case
  proof (cases x)
    case (Child c)
    with "2.prems"(1) it obtain c' where w: "pathForEach rt c rest ty = Inr (c', rt')"
      and t': "t' = replaceProp key (Obj c') current1"
      by (auto split: sum.splits)
    from "2.IH"(1)[OF it refl Child w "2.prems"(2)] have e: "evolves c c'" .
    from rd Child have m1: "map_of current1 key = Some (Obj c)" by (simp add: readProp_Child)
    show ?thesis
    proof (cases "current1 = current")
      case True
      with m1 t' have "t' = setProp key (Obj c') current" by (simp add: setProp_def)
      moreover have "evolves current (setProp key (Obj c') current)"
        using m1 True e by (intro evolves_setProp) simp
      ultimately show ?thesis by simp
    next
      case False
      with cs m1 have s1: "current1 = setProp key (Obj []) current" and c: "c = []"
        and k: "map_of current key = None \<or> map_of current key = Some (Str [])"
        by (auto simp: map_of_setProp split: option.splits node.splits if_splits)
      from s1 t' have "t' = setProp key (Obj c') current" by (simp add: replaceProp_setProp)
      moreover have "evolves current (setProp key (Obj c') current)"
        using k by (intro evolves_setProp) auto
      ultimately show ?thesis by simp
    qed
  next
    case (Value v)
    with "2.prems"(1) it have t': "t' = current1"
      by (auto split: sum.splits if_splits)
    show ?thesis
    proof (cases "current1 = current")
      case True
      with t' show ?thesis by (simp add: evolves_refl)
    next
      case False
      have "evolves current current1"
      proof (cases "map_of current key")
        case None
        with cs False have "current1 = setProp key (Str ty) current \<or> current1 = setProp key (Obj []) current"
          by auto
        moreover have "evolves current (setProp key w current)" for w
          using None by (intro evolves_setProp) simp
        ultimately show ?thesis by auto
      next
        case (Some n)
        show ?thesis
        proof (cases n)
          case (Str s)
          with Some cs False have "s = []"
            and "current1 = setProp key (if rest = [] then Str ty else Obj []) current"
            by (auto split: if_splits)
          moreover have "evolves current (setProp key w current)" if "s = []" for w
            using Some Str that by (intro evolves_setProp) simp
          ultimately show ?thesis by simp
        next
          case (Obj c)
          with Some cs False have "current1 = setProp key (Str ty) current"
            by (auto split: if_splits)
          moreover have "evolves current (setProp key (Str ty) current)"
            using Some Obj "2.prems"(2) by (intro evolves_setProp) simp
          ultimately show ?thesis by simp
        qed
      qed
      with t' show ?thesis by simp
    qed
  qed
qed simp_all

lemma forEach_evolves:
  "validatedFields_forEach rt t fs = Inr (t', rt') \<Longrightarrow> evolves t t'"
proof (induction fs arbitrary: t rt)
  case Nil
  then show ?case by (simp add: evolves_refl)
next
  case (Cons f fs)
  from Cons.prems obtain t1 rt1 where s: "insertField rt t f = Inr (t1, rt1)"
    and r: "validatedFields_forEach rt1 t1 fs = Inr (t', rt')"
    by (auto split: sum.splits)
  from s have "evolves t t1"
    unfolding insertField_def using walk_evolves(1) typeOrAny_nonempty by blast
  with Cons.IH[OF r] show ?case by (blast intro: evolves_trans)
qed

lemma convert_append:
  assumes "convertSchemaToJSON (JArray xs) = Inr t"
    and "convertSchemaToJSON (JArray (xs @ ys)) = Inr t'"
  shows "evolves t t'"
proof -
  from convert_run[OF assms(1)] obtain fs rt where
    p: "parseElements xs = Inr fs" and w: "validatedFields_forEach pristine [] fs = Inr (t, rt)" by blast
  from convert_run[OF assms(2)] obtain hs rt' where
    p': "parseElements (xs @ ys) = Inr hs" and w': "validatedFields_forEach pristine [] hs = Inr (t', rt')"
    by blast
  from p p' obtain gs where hs: "hs = fs @ gs"
    by (auto simp: parseElements_append split: sum.splits)
  from w' w have "validatedFields_forEach rt t gs = Inr (t', rt')"
    unfolding hs by (simp add: forEach_append)
  then show ?thesis by (rule forEach_evolves)
qed

subsection \<open>Validation\<close>

lemma zString_cases: "zString v = (if isString v then Inr (case v of JString s \<Rightarrow> s) else Inl ZodError)"
  by (cases v) (auto simp: isString_def)

lemma zStringDefault_fails: "(zStringDefault d v = Inl e) = (wrongType isString v \<and> e = ZodError)"
  by (cases v) (auto simp: wrongType_def isString_def)

lemma zBooleanDefault_fails: "(zBooleanDefault d v = Inl e) = (wrongType isBoolean v \<and> e = ZodError)"
  by (cases v) (auto simp: wrongType_def isBoolean_def)

lemma zString_fails: "(zString v = Inl e) = ((v = JUndefined \<or> wrongType isString v) \<and> e = ZodError)"
  by (cases v) (auto simp: wrongType_def isString_def)

lemma zStringDefault_ok: "zStringDefault d v = Inr s \<Longrightarrow> \<not> wrongType isString v"
  by (cases v) (auto simp: wrongType_def isString_def)

lemma zBooleanDefault_ok: "zBooleanDefault d v = Inr b \<Longrightarrow> \<not> wrongType isBoolean v"
  by (cases v) (auto simp: wrongType_def isBoolean_def)

lemma zString_ok: "zString v = Inr s \<Longrightarrow> \<not> wrongType isString v \<and> v \<noteq> JUndefined"
  by (cases v) (auto simp: wrongType_def isString_def)

lemma fieldSchema_parse_fails: "(fieldSchema_parse x = Inl e) = (failsShape x \<and> e = ZodError)"
proof (cases x)
  case (JObject ps)
  show ?thesis
    unfolding JObject failsShape_def
    by (auto simp: zString_fails zStringDefault_fails zBooleanDefault_fails split: sum.splits
        dest: zStringDefault_ok zBooleanDefault_ok zString_ok)
qed (auto simp: failsShape_def)

lemma parseElements_fails:
  "(parseElements xs = Inl e) = ((\<exists>x\<in>set xs. failsShape x) \<and> e = ZodError)"
proof (induction xs)
  case Nil
  then show ?case by simp
next
  case (Cons x xs)
  show ?case
  proof (cases "fieldSchema_parse x")
    case (Inl e')
    then show ?thesis using fieldSchema_parse_fails[of x e'] by auto
  next
    case (Inr f)
    then have "\<not> failsShape x" using fieldSchema_parse_fails[of x ZodError] by auto
    with Inr Cons.IH show ?thesis by (auto split: sum.splits)
  qed
qed

lemma parse_name:
  "fieldSchema_parse (JObject ps) = Inr f \<Longrightarrow> getProp ps ''name'' = JString (name f)"
  by (cases "getProp ps ''name''") (auto split: sum.splits)


lemma parseElements_names:
  "parseElements xs = Inr fs \<Longrightarrow> JObject ps \<in> set xs \<Longrightarrow> getProp ps ''name'' = JString n
   \<Longrightarrow> \<exists>f\<in>set fs. name f = n"
proof (induction xs arbitrary: fs)
  case Nil
  then show ?case by simp
next
  case (Cons x xs)
  from Cons.prems(1) obtain f fs' where f: "fieldSchema_parse x = Inr f" and r: "parseElements xs = Inr fs'"
    and fs: "fs = f # fs'" by (auto split: sum.splits)
  show ?case
  proof (cases "x = JObject ps")
    case True
    with f parse_name[of ps f] Cons.prems(3) fs show ?thesis by auto
  next
    case False
    with Cons.prems(2) have "JObject ps \<in> set xs" by simp
    from Cons.IH[OF r this Cons.prems(3)] fs show ?thesis by auto
  qed
qed

subsection \<open>Rendering and key order\<close>

lemma render_ok:
  "2 \<le> indent \<Longrightarrow> getStringifiedSchema t indent = Inr (blockText t (nat indent))"
  "2 \<le> indent \<Longrightarrow> spaces = replicate (nat indent) CHR '' '' \<Longrightarrow>
     entries_map t spaces indent = Inr (entryTexts t (nat indent))"
proof (induction t indent and t spaces indent rule: getStringifiedSchema_entries_map.induct)
  case (1 defs indent)
  have "repeatSpace indent = Inr (replicate (nat indent) CHR '' '')"
    using "1.prems" by (simp add: repeatSpace_def)
  moreover from "1.IH"[OF this "1.prems" refl]
  have "entries_map defs (replicate (nat indent) CHR '' '') indent = Inr (entryTexts defs (nat indent))" .
  moreover have "repeatSpace (indent - 2) = Inr (replicate (nat indent - 2) CHR '' '')"
    using "1.prems" by (simp add: repeatSpace_def nat_diff_distrib)
  ultimately show ?case by simp
next
  case (2 spaces indent)
  then show ?case by simp
next
  case (3 key v es spaces indent)
  then show ?case by simp
next
  case (4 key v es spaces indent)
  have n: "nat (indent + 2) = nat indent + 2" using "4.prems"(1) by simp
  from "4.IH"(1) "4.prems" have b: "getStringifiedSchema v (indent + 2) = Inr (blockText v (nat indent + 2))"
    using n by simp
  from "4.IH"(2)[OF b "4.prems"] have "entries_map es spaces indent = Inr (entryTexts es (nat indent))" .
  with b "4.prems"(2) show ?case by simp
qed

lemma render_error:
  "getStringifiedSchema t indent = Inl e \<Longrightarrow> e = RangeError"
  "entries_map t spaces indent = Inl e \<Longrightarrow> e = RangeError"
  by (induction t indent and t spaces indent rule: getStringifiedSchema_entries_map.induct)
     (auto simp: repeatSpace_def split: sum.splits if_splits)

lemma render_low_indent: "indent < 2 \<Longrightarrow> getStringifiedSchema t indent = Inl RangeError"
  using render_error(2)[of t "replicate (nat indent) CHR '' ''" indent]
  by (auto simp: repeatSpace_def split: sum.splits)

lemma entryTexts_keys:
  "list_all2 (\<lambda>(k, v) text. \<exists>rest. text = replicate n CHR '' '' @ k @ '': '' @ rest)
     t (entryTexts t n)"
proof (induction t)
  case Nil
  then show ?case by simp
next
  case (Cons e t)
  obtain k v where e: "e = (k, v)" by (cases e)
  show ?case using Cons.IH unfolding e by (cases v) auto
qed

subsection \<open>Where a nested mapping comes from\<close>

lemma getPath_Cons:
  "p \<noteq> [] \<Longrightarrow> getPath t (k # p) = (case map_of t k of Some (Obj c) \<Rightarrow> getPath c p | _ \<Rightarrow> None)"
  by (cases p) (auto split: option.splits node.splits)

lemma getPath_empty: "getPath [] p = None"
  by (induction "[] :: object" p rule: getPath.induct) simp_all

lemma getPath_cong:
  "map_of t' k = map_of t k \<Longrightarrow> getPath t' (k # p) = getPath t (k # p)"
  by (cases p) simp_all

lemma iterationProp_other:
  assumes "iterationProp rt t key l ty = Inr (t1, x)" and "k \<noteq> key"
  shows "map_of t1 k = map_of t k"
  using iterationProp_cases(2)[OF assms(1)] assms(2)
  by (auto simp: map_of_setProp split: option.splits node.splits if_splits)

lemma walk_mapping:
  "pathForEach rt t ks ty = Inr (t', rt') \<Longrightarrow> getPath t' p = Some (Obj c')
   \<Longrightarrow> (\<exists>c. getPath t p = Some (Obj c)) \<or> (\<exists>q. q \<noteq> [] \<and> ks = p @ q)"
  "valueForEach rt v ks ty = Inr rt' \<Longrightarrow> True"
proof (induction rt t ks ty and rt v ks ty arbitrary: t' rt' p c' and rt'
    rule: pathForEach_valueForEach.induct)
  case (1 rt current ty)
  then show ?case by auto
next
  case (2 rt current key rest ty)
  from "2.prems"(1) obtain current1 x where
    it: "iterationProp rt current key (rest = []) ty = Inr (current1, x)"
    by (auto split: sum.splits)
  note rd = iterationProp_cases(1)[OF it]
  note cs = iterationProp_cases(2)[OF it]
  from "2.prems"(2) obtain k p' where p: "p = k # p'" by (cases p) auto
  show ?case
  proof (cases "k = key")
    case False
    have "map_of t' k = map_of current1 k"
      using "2.prems"(1) it False
      by (cases x) (auto simp: map_of_replaceProp split: sum.splits if_splits)
    also have "\<dots> = map_of current k" using iterationProp_other[OF it False] .
    finally have "getPath t' (k # p') = getPath current (k # p')" by (rule getPath_cong)
    with "2.prems"(2) p show ?thesis by auto
  next
    case True
    show ?thesis
    proof (cases x)
      case (Value v)
      with "2.prems"(1) it have t': "t' = current1" by (auto split: sum.splits if_splits)
      from rd Value have "\<nexists>d. map_of current1 key = Some (Obj d)"
        by (auto simp: readProp_def split: option.splits node.splits sum.splits)
      with "2.prems"(2) p True t' show ?thesis
        by (cases p') (auto split: option.splits node.splits)
    next
      case (Child c)
      with "2.prems"(1) it obtain d' where w: "pathForEach rt c rest ty = Inr (d', rt')"
        and t': "t' = replaceProp key (Obj d') current1"
        by (auto split: sum.splits)
      from rd Child have m1: "map_of current1 key = Some (Obj c)" by (simp add: readProp_Child)
      with t' have m': "map_of t' key = Some (Obj d')" by (simp add: map_of_replaceProp)
      have own: "map_of current key = Some (Obj c) \<or> (rest \<noteq> [] \<and> c = [])"
        using cs m1 by (auto simp: map_of_setProp split: option.splits node.splits if_splits)
      show ?thesis
      proof (cases "p' = []")
        case True
        from own show ?thesis
        proof
          assume "map_of current key = Some (Obj c)"
          with p True \<open>k = key\<close> show ?thesis by simp
        next
          assume "rest \<noteq> [] \<and> c = []"
          with p True \<open>k = key\<close> show ?thesis by auto
        qed
      next
        case False
        from "2.prems"(2) p \<open>k = key\<close> m' False have g: "getPath d' p' = Some (Obj c')"
          by (simp add: getPath_Cons)
        from "2.IH"(1)[OF it refl Child w g]
        consider (there) c0 where "getPath c p' = Some (Obj c0)"
          | (longer) q where "q \<noteq> []" "rest = p' @ q" by blast
        then show ?thesis
        proof cases
          case there
          then have "c \<noteq> []" by (auto simp: getPath_empty)
          with own have "map_of current key = Some (Obj c)" by simp
          with there p \<open>k = key\<close> False show ?thesis by (simp add: getPath_Cons)
        next
          case longer
          with p \<open>k = key\<close> show ?thesis by auto
        qed
      qed
    qed
  qed
qed simp_all

lemma forEach_mapping:
  "validatedFields_forEach rt t fs = Inr (t', rt') \<Longrightarrow> getPath t' p = Some (Obj c')
   \<Longrightarrow> (\<exists>c. getPath t p = Some (Obj c)) \<or> (\<exists>f\<in>set fs. \<exists>q. q \<noteq> [] \<and> fieldPath f = p @ q)"
proof (induction fs arbitrary: t rt)
  case Nil
  then show ?case by auto
next
  case (Cons f fs)
  from Cons.prems(1) obtain t1 rt1 where s: "insertField rt t f = Inr (t1, rt1)"
    and r: "validatedFields_forEach rt1 t1 fs = Inr (t', rt')"
    by (auto split: sum.splits)
  from Cons.IH[OF r Cons.prems(2)] show ?case
  proof
    assume "\<exists>c. getPath t1 p = Some (Obj c)"
    then obtain c where "getPath t1 p = Some (Obj c)" by blast
    from walk_mapping(1)[OF s[unfolded insertField_def] this] show ?thesis by auto
  next
    assume "\<exists>f\<in>set fs. \<exists>q. q \<noteq> [] \<and> fieldPath f = p @ q"
    then show ?thesis by auto
  qed
qed

subsection \<open>Enumeration order\<close>

lemma orderedKeys_tl: "orderedKeys (k # ks) \<Longrightarrow> orderedKeys ks"
  by (cases ks) auto

lemma orderedKeys_Cons:
  "orderedKeys (k # ks) \<longleftrightarrow>
     orderedKeys ks \<and> (ks \<noteq> [] \<longrightarrow> isArrayIndex (hd ks) \<longrightarrow> isArrayIndex k \<and> numericValue k \<le> numericValue (hd ks))"
  by (cases ks) auto

lemma orderedKeys_named: "orderedKeys (k # ks) \<Longrightarrow> \<not> isArrayIndex k \<Longrightarrow> filter isArrayIndex ks = []"
proof (induction ks arbitrary: k)
  case Nil
  then show ?case by simp
next
  case (Cons k' ks)
  from Cons.prems have n: "\<not> isArrayIndex k'" and o: "orderedKeys (k' # ks)" by auto
  from Cons.IH[OF o n] n show ?case by simp
qed

lemma orderedKeys_lower:
  "orderedKeys (k # ks) \<Longrightarrow> \<forall>k'\<in>set (filter isArrayIndex ks). numericValue k \<le> numericValue k'"
proof (induction ks arbitrary: k)
  case Nil
  then show ?case by simp
next
  case (Cons k' ks)
  show ?case
  proof (cases "isArrayIndex k'")
    case True
    with Cons.prems have le: "numericValue k \<le> numericValue k'" and o: "orderedKeys (k' # ks)" by auto
    from Cons.IH[OF o] le True show ?thesis by auto
  next
    case False
    from Cons.prems have o: "orderedKeys (k' # ks)" by auto
    from orderedKeys_named[OF o False] False show ?thesis by simp
  qed
qed

lemma orderedKeys_split:
  "orderedKeys ks \<Longrightarrow>
     ks = filter isArrayIndex ks @ filter (\<lambda>k. \<not> isArrayIndex k) ks
     \<and> sorted (map numericValue (filter isArrayIndex ks))"
proof (induction ks)
  case Nil
  then show ?case by simp
next
  case (Cons k ks)
  from Cons.prems have o: "orderedKeys ks" by (rule orderedKeys_tl)
  note ih = Cons.IH[OF o]
  show ?case
  proof (cases "isArrayIndex k")
    case True
    with ih orderedKeys_lower[OF Cons.prems] show ?thesis by auto
  next
    case False
    from orderedKeys_named[OF Cons.prems False] have e: "filter isArrayIndex ks = []" .
    then have "filter (\<lambda>k. \<not> isArrayIndex k) ks = ks"
      by (simp add: filter_empty_conv filter_id_conv)
    with False e show ?thesis by simp
  qed
qed

lemma keys_addProp_hd:
  "map fst (addProp k v t) \<noteq> []
   \<and> (hd (map fst (addProp k v t)) = k \<or> (t \<noteq> [] \<and> hd (map fst (addProp k v t)) = fst (hd t)
        \<and> \<not> comesBefore k (fst (hd t))))"
  by (cases t) (auto split: if_splits)

lemma orderedKeys_addProp:
  "orderedKeys (map fst t) \<Longrightarrow> orderedKeys (map fst (addProp k v t))"
proof (induction t)
  case Nil
  then show ?case by simp
next
  case (Cons e t)
  obtain k' v' where e: "e = (k', v')" by (cases e)
  from Cons.prems have o: "orderedKeys (map fst t)" unfolding e by (auto dest: orderedKeys_tl)
  show ?case
  proof (cases "comesBefore k k'")
    case True
    with Cons.prems show ?thesis
      unfolding e by (auto simp: comesBefore_def split: if_splits)
  next
    case False
    have a: "orderedKeys (map fst (addProp k v t))" using Cons.IH[OF o] .
    from keys_addProp_hd[of k v t] have ne: "map fst (addProp k v t) \<noteq> []"
      and hd: "hd (map fst (addProp k v t)) = k
        \<or> (t \<noteq> [] \<and> hd (map fst (addProp k v t)) = fst (hd t) \<and> \<not> comesBefore k (fst (hd t)))"
      by auto
    from hd show ?thesis
    proof
      assume h: "hd (map fst (addProp k v t)) = k"
      have "isArrayIndex k \<longrightarrow> isArrayIndex k' \<and> numericValue k' \<le> numericValue k"
        using False by (auto simp: comesBefore_def split: if_splits)
      with a ne h False show ?thesis
        unfolding e by (simp add: orderedKeys_Cons[of k'])
    next
      assume h: "t \<noteq> [] \<and> hd (map fst (addProp k v t)) = fst (hd t) \<and> \<not> comesBefore k (fst (hd t))"
      from h Cons.prems have "isArrayIndex (fst (hd t)) \<longrightarrow> isArrayIndex k' \<and> numericValue k' \<le> numericValue (fst (hd t))"
        unfolding e by (cases t) auto
      with a ne h False show ?thesis
        unfolding e by (simp add: orderedKeys_Cons[of k'])
    qed
  qed
qed

lemma orderedKeys_setProp:
  "orderedKeys (map fst t) \<Longrightarrow> orderedKeys (map fst (setProp k v t))"
  by (simp add: setProp_def orderedKeys_addProp keys_replaceProp)

lemma orderedIn_map_of: "orderedIn t \<Longrightarrow> map_of t k = Some v \<Longrightarrow> orderedNode v"
  by (induction t) (auto split: if_splits)

lemma orderedIn_addProp: "orderedIn t \<Longrightarrow> orderedNode v \<Longrightarrow> orderedIn (addProp k v t)"
  by (induction t) auto

lemma orderedIn_replaceProp: "orderedIn t \<Longrightarrow> orderedNode v \<Longrightarrow> orderedIn (replaceProp k v t)"
  by (induction t) auto

lemma orderedNode_setProp:
  "orderedNode (Obj t) \<Longrightarrow> orderedNode v \<Longrightarrow> orderedNode (Obj (setProp k v t))"
  by (simp add: orderedKeys_setProp) (simp add: setProp_def orderedIn_addProp orderedIn_replaceProp)

lemma orderedNode_replaceProp:
  "orderedNode (Obj t) \<Longrightarrow> orderedNode v \<Longrightarrow> orderedNode (Obj (replaceProp k v t))"
  by (simp add: keys_replaceProp orderedIn_replaceProp)

lemma orderedNode_iteration:
  assumes "iterationProp rt t k l ty = Inr (t1, x)" and "orderedNode (Obj t)"
  shows "orderedNode (Obj t1)"
proof -
  have "t1 = t \<or> t1 = setProp k (Str ty) t \<or> t1 = setProp k (Obj []) t"
    using iterationProp_cases(2)[OF assms(1)]
    by (auto split: option.splits node.splits if_splits)
  moreover have "orderedNode (Obj (setProp k (Str ty) t))"
    using assms(2) by (rule orderedNode_setProp) simp
  moreover have "orderedNode (Obj (setProp k (Obj []) t))"
    using assms(2) by (rule orderedNode_setProp) simp
  ultimately show ?thesis using assms(2) by auto
qed

lemma orderedNode_walk:
  "pathForEach rt t p ty = Inr (t', rt') \<Longrightarrow> orderedNode (Obj t) \<Longrightarrow> orderedNode (Obj t')"
  "valueForEach rt v p ty = Inr rt' \<Longrightarrow> True"
proof (induction rt t p ty and rt v p ty arbitrary: t' rt' and rt' rule: pathForEach_valueForEach.induct)
  case (1 rt current ty)
  then show ?case by simp
next
  case (2 rt current key rest ty)
  from "2.prems"(1) obtain current1 x where it: "iterationProp rt current key (rest = []) ty = Inr (current1, x)"
    by (auto split: sum.splits)
  have n1: "orderedNode (Obj current1)"
    using orderedNode_iteration[OF it "2.prems"(2)] .
  show ?case
  proof (cases x)
    case (Child c)
    with "2.prems"(1) it obtain c' where w: "pathForEach rt c rest ty = Inr (c', rt')"
      and t': "t' = replaceProp key (Obj c') current1"
      by (auto split: sum.splits)
    from iterationProp_cases(1)[OF it] Child have "map_of current1 key = Some (Obj c)"
      by (simp add: readProp_Child)
    with n1 have "orderedNode (Obj c)" using orderedIn_map_of by fastforce
    from "2.IH"(1)[OF it refl Child w this] have "orderedNode (Obj c')" .
    with t' n1 show ?thesis using orderedNode_replaceProp by blast
  next
    case (Value v)
    with "2.prems"(1) it have "t' = current1"
      by (auto split: sum.splits if_splits)
    with n1 show ?thesis by simp
  qed
qed simp_all

lemma orderedNode_forEach:
  "validatedFields_forEach rt t fs = Inr (t', rt') \<Longrightarrow> orderedNode (Obj t) \<Longrightarrow> orderedNode (Obj t')"
proof (induction fs arbitrary: t rt)
  case Nil
  then show ?case by simp
next
  case (Cons f fs)
  from Cons.prems(1) obtain t1 rt1 where s: "insertField rt t f = Inr (t1, rt1)"
    and r: "validatedFields_forEach rt1 t1 fs = Inr (t', rt')"
    by (auto split: sum.splits)
  from s Cons.prems(2) have "orderedNode (Obj t1)"
    unfolding insertField_def using orderedNode_walk(1) by blast
  from Cons.IH[OF r this] show ?case .
qed

lemma orderedNode_path:
  "orderedNode (Obj t) \<Longrightarrow> getObject t p = Some c \<Longrightarrow> orderedKeys (map fst c)"
proof (induction p arbitrary: t)
  case Nil
  then show ?case by simp
next
  case (Cons k ks)
  from Cons.prems(2) obtain d where d: "map_of t k = Some (Obj d)" and g: "getObject d ks = Some c"
    by (auto split: option.splits node.splits)
  from Cons.prems(1) d have "orderedNode (Obj d)" using orderedIn_map_of by fastforce
  from Cons.IH[OF this g] show ?case .
qed

lemma convert_ordered:
  assumes "convertSchemaToJSON (JArray xs) = Inr t" and "getObject t p = Some c"
  shows "map fst c = indexKeys c @ namedKeys c \<and> sorted (map numericValue (indexKeys c))"
proof -
  from convert_run[OF assms(1)] obtain fs rt where
    w: "validatedFields_forEach pristine [] fs = Inr (t, rt)" by blast
  have "orderedNode (Obj t)" using orderedNode_forEach[OF w] by simp
  from orderedNode_path[OF this assms(2)] have "orderedKeys (map fst c)" .
  from orderedKeys_split[OF this] show ?thesis by (simp add: indexKeys_def namedKeys_def)
qed

section \<open>Claims\<close>

subsection \<open>C1: two descriptors with the same full name\<close>

text \<open>
  C1 as stated (the later descriptor's type ends up at the path) fails on the module:
  for \<^verbatim>\<open>[{name:"a", type:"string"}, {name:"a", type:"int"}]\<close> the tree keeps \<^verbatim>\<open>a: "string"\<close>. The
  second descriptor finds a non-empty string under the key, so \<^verbatim>\<open>!current[key]\<close> is false
  and \<^verbatim>\<open>typeof current[key] === "object"\<close> is false: nothing is written.
\<close>

theorem exact_collision_counterexample:
  "convertSchemaToJSON (JArray [rawDescriptor ''a'' ''string'', rawDescriptor ''a'' ''int''])
     = Inr [(''a'', Str ''string'')]
   \<and> getPath [(''a'', Str ''string'')] [''a''] \<noteq> Some (Str ''int'')"
  by code_simp

text \<open>
  C1, amended. For every input sequence in which the descriptors before the last one
  have left a terminal type string at the last descriptor's full path, processing the
  last descriptor changes nothing: the result is the tree of the earlier descriptors,
  and the path still holds the earlier type (the first write wins). The runtime is left
  as it was, too.
\<close>

theorem exact_collision_keeps_earlier_type:
  assumes "validatedFields_forEach pristine [] fs = Inr (t, rt)"
    and "getPath t (fieldPath f) = Some (Str s)"
  shows "validatedFields_forEach pristine [] (fs @ [f]) = Inr (t, rt)"
proof -
  have "nonEmptyTypesIn t"
    using nonEmptyTypesIn_forEach[OF _ assms(1)] by simp
  then have "s \<noteq> []"
    using assms(2) getPath_nonempty by blast
  with assms(2) have "insertField rt t f = Inr (t, rt)"
    by (simp add: insertField_def exact_noop)
  with forEach_snoc[OF assms(1)] show ?thesis by simp
qed

theorem exact_collision_keeps_earlier_type_witness:
  "validatedFields_forEach pristine [] [descriptor ''a'' ''string'']
     = Inr ([(''a'', Str ''string'')], pristine)
   \<and> getPath [(''a'', Str ''string'')] (fieldPath (descriptor ''a'' ''int'')) = Some (Str ''string'')
   \<and> validatedFields_forEach pristine [] ([descriptor ''a'' ''string''] @ [descriptor ''a'' ''int''])
       = Inr ([(''a'', Str ''string'')], pristine)"
proof -
  have h1: "validatedFields_forEach pristine [] [descriptor ''a'' ''string'']
      = Inr ([(''a'', Str ''string'')], pristine)"
    by code_simp
  have h2: "getPath [(''a'', Str ''string'')] (fieldPath (descriptor ''a'' ''int''))
      = Some (Str ''string'')"
    by code_simp
  note c = exact_collision_keeps_earlier_type[OF h1 h2]
  from h1 h2 c show ?thesis
    by (intro conjI)
qed

subsection \<open>C2: a nested mapping collapses to a terminal\<close>

text \<open>
  C2 as stated (whenever an earlier name strictly extends a later one, the final tree
  holds the later descriptor's type at the later path) fails on the module. In
  \<^verbatim>\<open>[{name:"a.b", type:"string"}, {name:"a", type:"int"}, {name:"a", type:"bool"}]\<close> the first
  name strictly extends the third, and the tree ends with \<^verbatim>\<open>a: "int"\<close>: the second descriptor
  has already replaced the nested mapping, and the third finds a type string, which it
  leaves alone. In \<^verbatim>\<open>[{name:"a", type:"int"}, {name:"a.b", type:"string"}, {name:"a", type:"bool"}]\<close>
  the nested mapping is never created.
\<close>

theorem collapse_counterexample:
  "convertSchemaToJSON (JArray [rawDescriptor ''a.b'' ''string'', rawDescriptor ''a'' ''int'',
       rawDescriptor ''a'' ''bool''])
     = Inr [(''a'', Str ''int'')]
   \<and> convertSchemaToJSON (JArray [rawDescriptor ''a'' ''int'', rawDescriptor ''a.b'' ''string'',
       rawDescriptor ''a'' ''bool''])
     = Inr [(''a'', Str ''int'')]
   \<and> getPath [(''a'', Str ''int'')] [''a''] \<noteq> Some (Str ''bool'')"
  by code_simp

text \<open>
  C2, amended. For every input sequence and every further descriptor: when the tree built
  from the sequence still holds a nested mapping at the further descriptor's full path,
  then a descriptor of the sequence has a name that strictly extends the further
  descriptor's name, and processing the further descriptor overwrites the mapping: the
  tree returned for the extended sequence holds the further descriptor's type string at
  that path, not a nested mapping, and the root's keys keep their order.
\<close>

theorem nested_mapping_collapses:
  assumes "fieldsSchema_parse (JArray xs) = Inr fs"
    and "convertSchemaToJSON (JArray xs) = Inr t"
    and "fieldSchema_parse x = Inr f"
    and "getPath t (fieldPath f) = Some (Obj c)"
  shows "(\<exists>g\<in>set fs. \<exists>q. q \<noteq> [] \<and> fieldPath g = fieldPath f @ q)
    \<and> (\<exists>t'. convertSchemaToJSON (JArray (xs @ [x])) = Inr t'
           \<and> getPath t' (fieldPath f) = Some (Str (typeOrAny f))
           \<and> map fst t' = map fst t)"
proof -
  from assms(1) have p: "parseElements xs = Inr fs" by simp
  with assms(2) obtain rt where w: "validatedFields_forEach pristine [] fs = Inr (t, rt)"
    by (auto simp: convertSchemaToJSON_def split: sum.splits)
  from forEach_mapping[OF w assms(4)]
  have longer: "\<exists>g\<in>set fs. \<exists>q. q \<noteq> [] \<and> fieldPath g = fieldPath f @ q"
    by (simp add: getPath_empty)
  from collapse[OF assms(4), of rt "typeOrAny f"] obtain t' where
    "insertField rt t f = Inr (t', rt)" "getPath t' (fieldPath f) = Some (Str (typeOrAny f))"
    "map fst t' = map fst t"
    by (auto simp: insertField_def)
  with convert_snoc[OF p w assms(3)]
  have "\<exists>t'. convertSchemaToJSON (JArray (xs @ [x])) = Inr t'
           \<and> getPath t' (fieldPath f) = Some (Str (typeOrAny f))
           \<and> map fst t' = map fst t"
    by simp
  with longer show ?thesis by (rule conjI)
qed

theorem nested_mapping_collapses_witness:
  "fieldsSchema_parse (JArray [rawDescriptor ''x'' ''bool'', rawDescriptor ''a.b'' ''string''])
     = Inr [descriptor ''x'' ''bool'', descriptor ''a.b'' ''string'']
   \<and> convertSchemaToJSON (JArray [rawDescriptor ''x'' ''bool'', rawDescriptor ''a.b'' ''string''])
     = Inr [(''x'', Str ''bool''), (''a'', Obj [(''b'', Str ''string'')])]
   \<and> fieldSchema_parse (rawDescriptor ''a'' ''int'') = Inr (descriptor ''a'' ''int'')
   \<and> getPath [(''x'', Str ''bool''), (''a'', Obj [(''b'', Str ''string'')])]
       (fieldPath (descriptor ''a'' ''int''))
     = Some (Obj [(''b'', Str ''string'')])
   \<and> (\<exists>t'. convertSchemaToJSON
              (JArray ([rawDescriptor ''x'' ''bool'', rawDescriptor ''a.b'' ''string'']
                 @ [rawDescriptor ''a'' ''int'']))
            = Inr t'
          \<and> getPath t' (fieldPath (descriptor ''a'' ''int''))
              = Some (Str (typeOrAny (descriptor ''a'' ''int'')))
          \<and> map fst t' = map fst [(''x'', Str ''bool''), (''a'', Obj [(''b'', Str ''string'')])])
   \<and> convertSchemaToJSON
         (JArray ([rawDescriptor ''x'' ''bool'', rawDescriptor ''a.b'' ''string'']
            @ [rawDescriptor ''a'' ''int'']))
     = Inr [(''x'', Str ''bool''), (''a'', Str ''int'')]"
proof -
  let ?xs = "[rawDescriptor ''x'' ''bool'', rawDescriptor ''a.b'' ''string'']"
  let ?t = "[(''x'', Str ''bool''), (''a'', Obj [(''b'', Str ''string'')])]"
  have h1: "fieldsSchema_parse (JArray ?xs) = Inr [descriptor ''x'' ''bool'', descriptor ''a.b'' ''string'']"
    by code_simp
  have h2: "convertSchemaToJSON (JArray ?xs) = Inr ?t"
    by code_simp
  have h3: "fieldSchema_parse (rawDescriptor ''a'' ''int'') = Inr (descriptor ''a'' ''int'')"
    by code_simp
  have h4: "getPath ?t (fieldPath (descriptor ''a'' ''int'')) = Some (Obj [(''b'', Str ''string'')])"
    by code_simp
  have r: "convertSchemaToJSON (JArray (?xs @ [rawDescriptor ''a'' ''int'']))
      = Inr [(''x'', Str ''bool''), (''a'', Str ''int'')]"
    by code_simp
  note c = nested_mapping_collapses[OF h1 h2 h3 h4, THEN conjunct2]
  from h1 h2 h3 h4 c r show ?thesis
    by (intro conjI)
qed

subsection \<open>C3: a terminal at a proper prefix\<close>




subsection \<open>C4: the order of the rendered keys\<close>

text \<open>
  C4 as stated (direct keys are rendered in first-insertion order for all key strings)
  fails on the module: a plain object enumerates keys that are array indices first, in
  ascending numeric order. For the names \<^verbatim>\<open>"2"\<close> then \<^verbatim>\<open>"1"\<close> the key \<^verbatim>\<open>1\<close> is rendered before
  \<^verbatim>\<open>2\<close>.
\<close>

theorem insertion_order_counterexample:
  "convertSchemaToJSON (JArray [rawDescriptor ''2'' ''int'', rawDescriptor ''1'' ''string''])
     = Inr [(''1'', Str ''string''), (''2'', Str ''int'')]
   \<and> getStringifiedSchema [(''1'', Str ''string''), (''2'', Str ''int'')] 2
     = Inr ''{\<newline>  1: string;\<newline>  2: int;\<newline>}''"
  by code_simp

text \<open>
  C4, amended. For every tree that \<^verbatim>\<open>convertSchemaToJSON\<close> returns and every object in it,
  the root or a nested mapping at any depth: the keys that are array indices come first,
  in ascending numeric order, and the keys that are not array indices follow in the order
  of their creation, whatever their lexical order. Precisely, for the creation order: take
  the tree \<open>t\<close> returned for any initial part \<open>xs\<close> of the input and the tree \<open>t'\<close> returned
  for the whole input \<open>xs @ ys\<close>, and an object that both have at the same path \<open>p\<close>; then the
  keys it had after \<open>xs\<close> are the first keys it has in the end, in the same order, and the
  keys created while \<open>ys\<close> was processed follow them. With an indent of at least 2 the
  rendering of the object is the block whose entry texts follow its keys one by one, each
  starting with the indentation, the key and \<^verbatim>\<open>": "\<close>.
\<close>

theorem keys_render_in_creation_order:
  assumes "convertSchemaToJSON (JArray xs) = Inr t"
    and "convertSchemaToJSON (JArray (xs @ ys)) = Inr t'"
    and "getObject t p = Some c" and "getObject t' p = Some c'"
    and "2 \<le> indent"
  shows "prefix (namedKeys c) (namedKeys c')
    \<and> map fst c' = indexKeys c' @ namedKeys c'
    \<and> sorted (map numericValue (indexKeys c'))
    \<and> getStringifiedSchema c' indent = Inr (blockText c' (nat indent))
    \<and> list_all2 (\<lambda>(k, v) text. \<exists>rest. text = replicate (nat indent) CHR '' '' @ k @ '': '' @ rest)
         c' (entryTexts c' (nat indent))"
proof -
  from convert_append[OF assms(1,2)] have "evolves t t'" .
  from evolves_path[OF this assms(3,4)] have "prefix (namedKeys c) (namedKeys c')" .
  with convert_ordered[OF assms(2,4)] render_ok(1)[OF assms(5)] entryTexts_keys
  show ?thesis by blast
qed

theorem keys_render_in_creation_order_witness:
  "convertSchemaToJSON (JArray [rawDescriptor ''zeta'' ''int'', rawDescriptor ''req.method'' ''string''])
     = Inr [(''zeta'', Str ''int''), (''req'', Obj [(''method'', Str ''string'')])]
   \<and> convertSchemaToJSON
         (JArray ([rawDescriptor ''zeta'' ''int'', rawDescriptor ''req.method'' ''string'']
            @ [rawDescriptor ''req.7'' ''bool'', rawDescriptor ''alpha.x'' ''string'',
               rawDescriptor ''req.body'' ''int'', rawDescriptor ''req.3'' ''bool'',
               rawDescriptor ''zeta'' ''bool'']))
     = Inr [(''zeta'', Str ''int''),
            (''req'', Obj [(''3'', Str ''bool''), (''7'', Str ''bool''),
                           (''method'', Str ''string''), (''body'', Str ''int'')]),
            (''alpha'', Obj [(''x'', Str ''string'')])]
   \<and> getObject [(''zeta'', Str ''int''), (''req'', Obj [(''method'', Str ''string'')])] [''req'']
     = Some [(''method'', Str ''string'')]
   \<and> getObject [(''zeta'', Str ''int''),
                (''req'', Obj [(''3'', Str ''bool''), (''7'', Str ''bool''),
                               (''method'', Str ''string''), (''body'', Str ''int'')]),
                (''alpha'', Obj [(''x'', Str ''string'')])] [''req'']
     = Some [(''3'', Str ''bool''), (''7'', Str ''bool''),
             (''method'', Str ''string''), (''body'', Str ''int'')]
   \<and> (2::int) \<le> 2
   \<and> prefix (namedKeys [(''method'', Str ''string'')])
        (namedKeys [(''3'', Str ''bool''), (''7'', Str ''bool''),
                    (''method'', Str ''string''), (''body'', Str ''int'')])
   \<and> namedKeys [(''3'', Str ''bool''), (''7'', Str ''bool''),
                (''method'', Str ''string''), (''body'', Str ''int'')] = [''method'', ''body'']
   \<and> indexKeys [(''3'', Str ''bool''), (''7'', Str ''bool''),
                (''method'', Str ''string''), (''body'', Str ''int'')] = [''3'', ''7'']
   \<and> getStringifiedSchema [(''3'', Str ''bool''), (''7'', Str ''bool''),
                           (''method'', Str ''string''), (''body'', Str ''int'')] 2
     = Inr ''{\<newline>  3: bool;\<newline>  7: bool;\<newline>  method: string;\<newline>  body: int;\<newline>}''"
proof -
  let ?xs = "[rawDescriptor ''zeta'' ''int'', rawDescriptor ''req.method'' ''string'']"
  let ?ys = "[rawDescriptor ''req.7'' ''bool'', rawDescriptor ''alpha.x'' ''string'',
               rawDescriptor ''req.body'' ''int'', rawDescriptor ''req.3'' ''bool'',
               rawDescriptor ''zeta'' ''bool'']"
  let ?t = "[(''zeta'', Str ''int''), (''req'', Obj [(''method'', Str ''string'')])]"
  let ?c = "[(''method'', Str ''string'')]"
  let ?c' = "[(''3'', Str ''bool''), (''7'', Str ''bool''),
              (''method'', Str ''string''), (''body'', Str ''int'')]"
  let ?t' = "[(''zeta'', Str ''int''), (''req'', Obj ?c'), (''alpha'', Obj [(''x'', Str ''string'')])]"
  have h1: "convertSchemaToJSON (JArray ?xs) = Inr ?t"
    by code_simp
  have h2: "convertSchemaToJSON (JArray (?xs @ ?ys)) = Inr ?t'"
    by code_simp
  have h3: "getObject ?t [''req''] = Some ?c"
    by code_simp
  have h4: "getObject ?t' [''req''] = Some ?c'"
    by code_simp
  have h5: "(2::int) \<le> 2"
    by simp
  have k: "namedKeys ?c' = [''method'', ''body'']"
    by code_simp
  have i: "indexKeys ?c' = [''3'', ''7'']"
    by code_simp
  have b: "blockText ?c' (nat 2)
      = ''{\<newline>  3: bool;\<newline>  7: bool;\<newline>  method: string;\<newline>  body: int;\<newline>}''"
    by code_simp
  note c = keys_render_in_creation_order[OF h1 h2 h3 h4 h5]
  note n = c[THEN conjunct1]
  have g: "getStringifiedSchema ?c' 2
      = Inr ''{\<newline>  3: bool;\<newline>  7: bool;\<newline>  method: string;\<newline>  body: int;\<newline>}''"
    using c[THEN conjunct2, THEN conjunct2, THEN conjunct2, THEN conjunct1] unfolding b .
  from h1 h2 h3 h4 h5 n k i g show ?thesis
    by (intro conjI)
qed

subsection \<open>C5: a failing descriptor fails the batch\<close>

text \<open>
  C5. For every input array with at least one element that fails shape validation (it
  is not an object, its name is missing, or one of its fields is present with the wrong
  primitive type), \<^verbatim>\<open>fieldsSchema.parse\<close> and with it \<^verbatim>\<open>convertSchemaToJSON\<close> end in the
  validation error: no list of validated fields and no tree is returned. The tree is
  created only after validation has returned, so nothing has been inserted.
\<close>

theorem invalid_descriptor_fails_batch:
  assumes "x \<in> set xs" and "failsShape x"
  shows "fieldsSchema_parse (JArray xs) = Inl ZodError
    \<and> convertSchemaToJSON (JArray xs) = Inl ZodError"
proof -
  have "parseElements xs = Inl ZodError"
    using parseElements_fails[of xs ZodError] assms by auto
  then show ?thesis
    by (simp add: convertSchemaToJSON_def)
qed

theorem invalid_descriptor_fails_batch_witness:
  "failsShape (JObject [(''type'', JString ''string'')])
   \<and> failsShape (JObject [(''name'', JString ''a''), (''hidden'', JString ''yes'')])
   \<and> convertSchemaToJSON (JArray [rawDescriptor ''a'' ''int'', JObject [(''type'', JString ''string'')]])
       = Inl ZodError
   \<and> convertSchemaToJSON
         (JArray [JObject [(''name'', JString ''a''), (''hidden'', JString ''yes'')], rawDescriptor ''b'' ''int''])
       = Inl ZodError"
proof -
  let ?noName = "JObject [(''type'', JString ''string'')]"
  let ?badHidden = "JObject [(''name'', JString ''a''), (''hidden'', JString ''yes'')]"
  have f1: "failsShape ?noName"
    by code_simp
  have f2: "failsShape ?badHidden"
    by code_simp
  have m1: "?noName \<in> set [rawDescriptor ''a'' ''int'', ?noName]"
    by simp
  have m2: "?badHidden \<in> set [?badHidden, rawDescriptor ''b'' ''int'']"
    by simp
  note c1 = invalid_descriptor_fails_batch[OF m1 f1, THEN conjunct2]
  note c2 = invalid_descriptor_fails_batch[OF m2 f2, THEN conjunct2]
  from f1 f2 c1 c2 show ?thesis
    by (intro conjI)
qed

subsection \<open>C6: the rendered block\<close>

text \<open>
  C6 as stated (for every indent parameter) fails on the module: the closing line is
  \<^verbatim>\<open>" ".repeat(indent - 2)\<close>, and \<^verbatim>\<open>repeat\<close> throws a RangeError on a negative count, so an
  indent of 0 or 1 ends in the error and no block is produced.
\<close>

theorem small_indent_counterexample:
  "getStringifiedSchema [(''status'', Str ''int'')] 0 = Inl RangeError
   \<and> getStringifiedSchema [(''status'', Str ''int'')] 1 = Inl RangeError"
  by code_simp

text \<open>
  C6, amended. For every tree and every indent of at least 2 (the default included),
  \<^verbatim>\<open>getStringifiedSchema\<close> returns the brace-delimited block: \<^verbatim>\<open>{\<close> on the first line; each
  terminal key as the indentation followed by \<^verbatim>\<open><key>: <type>;\<close>; each nested key as the
  indentation, \<^verbatim>\<open><key>: \<close>, the sub-block rendered with the indent increased by 2, then \<^verbatim>\<open>;\<close>;
  and a closing \<^verbatim>\<open>}\<close> indented 2 spaces less than the entries. The inputs of the two
  examples of the specification give exactly the example texts.
\<close>

theorem rendering_is_block_text:
  "(2 \<le> indent \<longrightarrow> getStringifiedSchema t indent = Inr (blockText t (nat indent)))
   \<and> convertSchemaToJSON (JArray [rawDescriptor ''status'' ''int'', rawDescriptor ''message'' ''string''])
       = Inr [(''status'', Str ''int''), (''message'', Str ''string'')]
   \<and> getStringifiedSchema [(''status'', Str ''int''), (''message'', Str ''string'')] 2
       = Inr ''{\<newline>  status: int;\<newline>  message: string;\<newline>}''
   \<and> convertSchemaToJSON
         (JArray [rawDescriptor ''request.method'' ''string'', rawDescriptor ''request.duration'' ''int64''])
       = Inr [(''request'', Obj [(''method'', Str ''string''), (''duration'', Str ''int64'')])]
   \<and> getStringifiedSchema [(''request'', Obj [(''method'', Str ''string''), (''duration'', Str ''int64'')])] 2
       = Inr ''{\<newline>  request: {\<newline>    method: string;\<newline>    duration: int64;\<newline>  };\<newline>}''"
proof -
  have general: "2 \<le> indent \<longrightarrow> getStringifiedSchema t indent = Inr (blockText t (nat indent))"
    using render_ok(1) by blast
  have e1: "convertSchemaToJSON (JArray [rawDescriptor ''status'' ''int'', rawDescriptor ''message'' ''string''])
       = Inr [(''status'', Str ''int''), (''message'', Str ''string'')]"
    by code_simp
  have e2: "getStringifiedSchema [(''status'', Str ''int''), (''message'', Str ''string'')] 2
       = Inr ''{\<newline>  status: int;\<newline>  message: string;\<newline>}''"
    by code_simp
  have e3: "convertSchemaToJSON
         (JArray [rawDescriptor ''request.method'' ''string'', rawDescriptor ''request.duration'' ''int64''])
       = Inr [(''request'', Obj [(''method'', Str ''string''), (''duration'', Str ''int64'')])]"
    by code_simp
  have e4: "getStringifiedSchema [(''request'', Obj [(''method'', Str ''string''), (''duration'', Str ''int64'')])] 2
       = Inr ''{\<newline>  request: {\<newline>    method: string;\<newline>    duration: int64;\<newline>  };\<newline>}''"
    by code_simp
  from general e1 e2 e3 e4 show ?thesis
    by (intro conjI)
qed

theorem rendering_is_block_text_witness:
  "(2::int) \<le> 4
   \<and> getStringifiedSchema [(''a'', Obj [(''b'', Str ''int'')]), (''c'', Str ''string'')] 4
       = Inr ''{\<newline>    a: {\<newline>      b: int;\<newline>    };\<newline>    c: string;\<newline>  }''"
proof -
  let ?t = "[(''a'', Obj [(''b'', Str ''int'')]), (''c'', Str ''string'')]"
  have b: "blockText ?t (nat 4) = ''{\<newline>    a: {\<newline>      b: int;\<newline>    };\<newline>    c: string;\<newline>  }''"
    by code_simp
  have i: "(2::int) \<le> 4"
    by simp
  note g = rendering_is_block_text[of 4 ?t, THEN conjunct1, THEN mp, OF i]
  have r: "getStringifiedSchema ?t 4
      = Inr ''{\<newline>    a: {\<newline>      b: int;\<newline>    };\<newline>    c: string;\<newline>  }''"
    using g unfolding b .
  from i r show ?thesis
    by (intro conjI)
qed

subsection \<open>C7: defaulting\<close>

text \<open>
  C7. Validating the one-element array \<^verbatim>\<open>[{name: "a"}]\<close> succeeds and yields exactly the
  descriptor with every default filled in: type \<^verbatim>\<open>"any"\<close>, unit \<^verbatim>\<open>""\<close>, hidden \<^verbatim>\<open>false\<close>,
  description \<^verbatim>\<open>""\<close>.
\<close>

theorem defaulting_of_name_only:
  "fieldsSchema_parse (JArray [JObject [(''name'', JString ''a'')]]) =
     Inr [\<lparr>name = ''a'', type = ''any'', unit = '''', hidden = False, description = ''''\<rparr>]"
  by (simp add: getProp_def)

subsection \<open>C8: an absent or empty type is \<^verbatim>\<open>"any"\<close>\<close>




subsection \<open>C9: the empty name\<close>

text \<open>
  C9 as stated (an empty-string name is rejected like a missing one) fails on the
  module: the name is checked by \<^verbatim>\<open>z.string()\<close>, which accepts the empty string. The input
  \<^verbatim>\<open>[{name: ""}]\<close> validates, and the tree gets the key \<^verbatim>\<open>""\<close>.
\<close>

theorem empty_name_counterexample:
  "fieldsSchema_parse (JArray [JObject [(''name'', JString '''')]]) = Inr [descriptor '''' ''any'']
   \<and> convertSchemaToJSON (JArray [JObject [(''name'', JString '''')]]) = Inr [('''', Str ''any'')]"
  by code_simp

text \<open>
  C9, amended. For every input array in which no element fails shape validation (each
  name is a string, each other field is absent or of its primitive type), a descriptor
  whose name is present and the empty string does not fail the batch: validation
  succeeds and returns a descriptor with the empty name. Only a missing or non-string
  name is rejected.
\<close>

theorem empty_name_is_accepted:
  assumes "\<forall>x\<in>set xs. \<not> failsShape x" and "JObject ps \<in> set xs"
    and "getProp ps ''name'' = JString []"
  shows "\<exists>fs. fieldsSchema_parse (JArray xs) = Inr fs \<and> (\<exists>f\<in>set fs. name f = [])"
proof -
  obtain fs where fs: "parseElements xs = Inr fs"
    using parseElements_fails[of xs] assms(1) by (cases "parseElements xs") auto
  with parseElements_names[OF fs assms(2,3)] show ?thesis by auto
qed

theorem empty_name_is_accepted_witness:
  "\<not> failsShape (JObject [(''name'', JString '''')])
   \<and> \<not> failsShape (rawDescriptor ''a'' ''int'')
   \<and> getProp [(''name'', JString '''')] ''name'' = JString []
   \<and> (\<exists>fs. fieldsSchema_parse (JArray [rawDescriptor ''a'' ''int'', JObject [(''name'', JString '''')]])
          = Inr fs \<and> (\<exists>f\<in>set fs. name f = []))"
proof -
  let ?e = "[(''name'', JString '''')]"
  have f1: "\<not> failsShape (JObject ?e)"
    by code_simp
  have f2: "\<not> failsShape (rawDescriptor ''a'' ''int'')"
    by code_simp
  have g: "getProp ?e ''name'' = JString []"
    by code_simp
  have a: "\<forall>x\<in>set [rawDescriptor ''a'' ''int'', JObject ?e]. \<not> failsShape x"
    using f1 f2 by simp
  have m: "JObject ?e \<in> set [rawDescriptor ''a'' ''int'', JObject ?e]"
    by simp
  note c = empty_name_is_accepted[OF a m g]
  from f1 f2 g c show ?thesis
    by (intro conjI)
qed

subsection \<open>C10: a descriptor below a terminal\<close>




end
